theory Spec2Isabelle
  imports Main "HOL-Library.Word" "HOL-Library.Option_ord"
begin

text \<open>
  The repository is the React front end of a Gmail and HubSpot integration
  (\<open>pages/Home.tsx\<close>, \<open>lib/hubspotCmsTest.ts\<close>) and the schema of its two tables
  (\<open>infra/supabase/schema.sql\<close>). The first part of this theory embeds them and, from
  the specification, the back end that is not part of the sources; the second part states
  and proves the properties.
\<close>

section \<open>JavaScript values used by the front end\<close>

text \<open>
  A JavaScript string is a sequence of 16-bit code units. String literals of the source
  are written with \<open>js\<close>; every literal of the source is ASCII.
\<close>

type_synonym js_string = "16 word list"

definition js :: "string \<Rightarrow> js_string" where
  "js s = map of_char s"

text \<open>A string is truthy in a condition (\<open>if (s)\<close>, \<open>s || d\<close>) when it is not empty.\<close>

definition truthy :: "js_string \<Rightarrow> bool" where
  "truthy s = (s \<noteq> [])"

text \<open>
  An optional or nullable string (\<open>string | null | undefined\<close>) is an option;
  \<open>!iso\<close> holds for null, undefined and the empty string.
\<close>

definition truthy_opt :: "js_string option \<Rightarrow> bool" where
  "truthy_opt v = (case v of None \<Rightarrow> False | Some s \<Rightarrow> truthy s)"

text \<open>
  Template literals print an integer-valued number in decimal (every number printed by
  this program is an integer far below \<open>10^21\<close>, where JavaScript switches to
  exponent notation).
\<close>

definition digit_unit :: "nat \<Rightarrow> 16 word" where
  "digit_unit d = of_nat (48 + d)"

function decimal_digits :: "nat \<Rightarrow> js_string" where
  "decimal_digits n =
     (if n < 10 then [digit_unit n] else decimal_digits (n div 10) @ [digit_unit (n mod 10)])"
  by pat_completeness auto
termination
  by (relation "measure id") auto

definition number_to_string :: "int \<Rightarrow> js_string" where
  "number_to_string i =
     (if i < 0 then js ''-'' @ decimal_digits (nat (- i)) else decimal_digits (nat i))"

section \<open>formatRelativeTime (pages/Home.tsx)\<close>

text \<open>
  \<^verbatim>\<open>
  const formatRelativeTime = (iso?: string | null) => {
    if (!iso) return "never";
    const date = new Date(iso);
    if (Number.isNaN(date.getTime())) return "unknown";
    const diff = Date.now() - date.getTime();
    const mins = Math.floor(diff / 60000);
    if (mins < 1) return "just now";
    if (mins < 60) return `${mins}m ago`;
    const hours = Math.floor(mins / 60);
    if (hours < 24) return `${hours}h ago`;
    const days = Math.floor(hours / 24);
    return `${days}d ago`;
  };
  \<close>
  The platform's date parser and clock are parameters (the argument \<open>iso\<close> is written
  \<open>iso_text\<close>, since HOL has a constant of that name): \<open>getTime s\<close> is the time value
  of \<open>new Date(s)\<close> in milliseconds, \<open>None\<close> where JavaScript gives \<open>NaN\<close>
  (an invalid date), and \<open>now\<close> is \<open>Date.now()\<close>. Time values are integers of
  magnitude at most \<open>8.64 * 10^15\<close>, so the difference is exact, and its quotient by
  60000 is below \<open>2^38\<close>, where rounding to a double moves a number by at most
  \<open>2^-16\<close>, less than the \<open>1/60000\<close> that a quotient which is not an integer is
  away from the next one: \<open>Math.floor (a / b)\<close> is \<open>a div b\<close>.
\<close>

definition formatRelativeTime ::
  "(js_string \<Rightarrow> int option) \<Rightarrow> int \<Rightarrow> js_string option \<Rightarrow> js_string" where
  "formatRelativeTime getTime now iso_text =
     (if \<not> truthy_opt iso_text then js ''never''
      else case getTime (the iso_text) of
        None \<Rightarrow> js ''unknown''
      | Some t \<Rightarrow>
          let diff = now - t;
              mins = diff div 60000
          in if mins < 1 then js ''just now''
             else if mins < 60 then number_to_string mins @ js ''m ago''
             else let hours = mins div 60
                  in if hours < 24 then number_to_string hours @ js ''h ago''
                     else let days = hours div 24
                          in number_to_string days @ js ''d ago'')"

text \<open>
  The description of the result by elapsed time, as the specification words it: the
  elapsed milliseconds are compared with one minute, one hour and one day, and the
  number printed is the floor of the elapsed minutes, hours or days.
\<close>

definition relative_time_described :: "int \<Rightarrow> js_string" where
  "relative_time_described elapsed =
     (if elapsed < 60000 then js ''just now''
      else if elapsed < 60 * 60000 then number_to_string (elapsed div 60000) @ js ''m ago''
      else if elapsed < 24 * (60 * 60000)
        then number_to_string (elapsed div (60 * 60000)) @ js ''h ago''
      else number_to_string (elapsed div (24 * (60 * 60000))) @ js ''d ago'')"

section \<open>triggerCmsBlogPostTest (lib/hubspotCmsTest.ts)\<close>

text \<open>
  \<^verbatim>\<open>
  export async function triggerCmsBlogPostTest(userId: string, options?: { signal?: AbortSignal }) {
    const response = await fetch("/api/hubspot/cms/test-blog-post", {
      method: "POST",
      headers: { "Content-Type": "application/json" },
      body: JSON.stringify({ user_id: userId }),
      signal: options?.signal,
    });
    if (!response.ok) {
      const detail = await response.text();
      throw new Error(detail || "Unable to trigger CMS blog post test.");
    }
    return (await response.json()) as CmsTestResponse;
  }
  \<close>
  A rejected promise is the left summand. \<open>fetch\<close> is the environment: it either rejects
  (network failure, abort) or resolves with a response. Reading the body of a response
  can itself reject: \<open>response.text()\<close> when the body cannot be read, and
  \<open>response.json()\<close> also when the body is not JSON text (a \<open>SyntaxError\<close>, as for
  an empty body).
\<close>

datatype js_error =
    JsError js_string
  | SyntaxError
  | TypeError
  | AbortError

datatype json =
    JNull
  | JBool bool
  | JNumber int
  | JString js_string
  | JArray "json list"
  | JObject "(js_string \<times> json) list"

record response =
  resp_ok :: bool
  resp_text :: "js_error + js_string"
  resp_json :: "js_error + json"

datatype fetch_result = Rejected js_error | Resolved response

record request =
  req_url :: js_string
  req_method :: js_string
  req_content_type :: js_string
  req_body :: json

definition cms_test_request :: "js_string \<Rightarrow> request" where
  "cms_test_request userId =
     \<lparr> req_url = js ''/api/hubspot/cms/test-blog-post'',
       req_method = js ''POST'',
       req_content_type = js ''application/json'',
       req_body = JObject [(js ''user_id'', JString userId)] \<rparr>"

definition cms_fallback_message :: js_string where
  "cms_fallback_message = js ''Unable to trigger CMS blog post test.''"

definition triggerCmsBlogPostTest ::
  "(request \<Rightarrow> fetch_result) \<Rightarrow> js_string \<Rightarrow> js_error + json" where
  "triggerCmsBlogPostTest fetch userId =
     (case fetch (cms_test_request userId) of
        Rejected e \<Rightarrow> Inl e
      | Resolved response \<Rightarrow>
          if \<not> resp_ok response then
            (case resp_text response of
               Inl e \<Rightarrow> Inl e
             | Inr detail \<Rightarrow>
                 Inl (JsError (if truthy detail then detail else cms_fallback_message)))
          else resp_json response)"

text \<open>
  A server that answers every request with status 204: the response is ok, its body is
  empty, and an empty body is not JSON text.
\<close>

definition no_content_server :: "request \<Rightarrow> fetch_result" where
  "no_content_server req =
     Resolved \<lparr> resp_ok = True, resp_text = Inr [], resp_json = Inl SyntaxError \<rparr>"

section \<open>The state of the Home page (pages/Home.tsx)\<close>

datatype ConnectionState = connecting | disconnected | connected

datatype InboxFilter = new | processed | error

definition filter_name :: "InboxFilter \<Rightarrow> js_string" where
  "filter_name f = (case f of new \<Rightarrow> js ''new'' | processed \<Rightarrow> js ''processed'' | error \<Rightarrow> js ''error'')"

text \<open>\<open>Record<InboxFilter, number>\<close>: one number for each of the three keys.\<close>

record status_counts =
  count_new :: int
  count_processed :: int
  count_error :: int

record HubSpotStatus =
  hs_connected :: bool
  hs_email :: "js_string option"

record GmailStatus =
  gs_connected :: bool
  gs_email :: "js_string option"
  gs_last_checked_at :: "js_string option"
  gs_counts :: "status_counts option"
  gs_baseline_at :: "js_string option"
  gs_baseline_ready :: "bool option"

record InboxSummary =
  sum_last_checked_at :: "js_string option"
  sum_counts :: status_counts
  sum_total :: int

record InboxMessage =
  im_id :: js_string
  im_subject :: js_string
  im_sender :: "js_string option"
  im_preview :: js_string
  im_snippet :: "js_string option"
  im_status :: InboxFilter
  im_has_attachments :: bool
  im_has_links :: bool
  im_has_images :: bool
  im_received_at :: "js_string option"
  im_created_at :: "js_string option"
  im_updated_at :: "js_string option"
  im_gmail_url :: "js_string option"
  im_crm_record_url :: "js_string option"
  im_error :: "js_string option"

text \<open>
  The component's state: \<open>userId\<close> from \<open>useUser\<close>, and one field for each
  \<open>useState\<close> of \<open>Home\<close> (the state \<open>filter\<close> is written \<open>inboxFilter\<close>).
\<close>

record home =
  userId :: "js_string option"
  gmailStatus :: GmailStatus
  gmailState :: ConnectionState
  gmailDisconnecting :: bool
  hubspotState :: ConnectionState
  hubspotStatus :: "HubSpotStatus option"
  hubspotError :: "js_string option"
  showInsights :: bool
  showInbox :: bool
  summary :: "InboxSummary option"
  summaryError :: "js_string option"
  messages :: "InboxMessage list"
  messagesError :: "js_string option"
  messagesLoading :: bool
  inboxFilter :: InboxFilter
  searchTerm :: js_string
  debouncedSearch :: js_string
  selectedMessage :: "InboxMessage option"
  isSyncing :: bool
  syncMessage :: "js_string option"
  autoSynced :: bool
  cmsTestRunning :: bool

definition default_gmail_status :: GmailStatus where
  "default_gmail_status =
     \<lparr> gs_connected = False, gs_email = None, gs_last_checked_at = None,
       gs_counts = Some \<lparr> count_new = 0, count_processed = 0, count_error = 0 \<rparr>,
       gs_baseline_at = None, gs_baseline_ready = Some False \<rparr>"

definition initial_home :: "js_string option \<Rightarrow> home" where
  "initial_home u =
     \<lparr> userId = u,
       gmailStatus = default_gmail_status,
       gmailState = connecting,
       gmailDisconnecting = False,
       hubspotState = connecting,
       hubspotStatus = None,
       hubspotError = None,
       showInsights = False,
       showInbox = False,
       summary = None,
       summaryError = None,
       messages = [],
       messagesError = None,
       messagesLoading = False,
       inboxFilter = new,
       searchTerm = [],
       debouncedSearch = [],
       selectedMessage = None,
       isSyncing = False,
       syncMessage = None,
       autoSynced = False,
       cmsTestRunning = False \<rparr>"

section \<open>The inbox query and the selected message\<close>

text \<open>
  \<open>String.prototype.trim\<close> removes white space and line terminators from both ends:
  TAB, LF, VT, FF, CR, SP, NBSP, U+1680, U+2000 to U+200A, U+2028, U+2029, U+202F, U+205F,
  U+3000 and U+FEFF.
\<close>

definition is_white_space :: "16 word \<Rightarrow> bool" where
  "is_white_space c =
     (c = 0x9 \<or> c = 0xA \<or> c = 0xB \<or> c = 0xC \<or> c = 0xD \<or> c = 0x20 \<or> c = 0xA0 \<or>
      c = 0x1680 \<or> (0x2000 \<le> c \<and> c \<le> 0x200A) \<or> c = 0x2028 \<or> c = 0x2029 \<or>
      c = 0x202F \<or> c = 0x205F \<or> c = 0x3000 \<or> c = 0xFEFF)"

definition trim :: "js_string \<Rightarrow> js_string" where
  "trim s = rev (dropWhile is_white_space (rev (dropWhile is_white_space s)))"

text \<open>
  \<^verbatim>\<open>
  useEffect(() => {
    const handle = window.setTimeout(() => {
      setDebouncedSearch(searchTerm.trim());
    }, 400);
    return () => window.clearTimeout(handle);
  }, [searchTerm]);
  \<close>
  \<open>debounce_elapsed\<close> is the timer's callback, run 400 ms after the last change of
  \<open>searchTerm\<close>.
\<close>

definition type_search :: "js_string \<Rightarrow> home \<Rightarrow> home" where
  "type_search v s = s\<lparr> searchTerm := v \<rparr>"

definition debounce_elapsed :: "home \<Rightarrow> home" where
  "debounce_elapsed s = s\<lparr> debouncedSearch := trim (searchTerm s) \<rparr>"

text \<open>
  \<open>URLSearchParams\<close> is the list of its pairs in order; \<open>set\<close> overwrites the first
  pair of the name and drops the others, or appends.
\<close>

type_synonym url_search_params = "(js_string \<times> js_string) list"

fun set_first :: "js_string \<Rightarrow> js_string \<Rightarrow> url_search_params \<Rightarrow> url_search_params" where
  "set_first k v [] = [(k, v)]"
| "set_first k v ((k', v') # ps) =
     (if k' = k then (k, v) # filter (\<lambda>kv. fst kv \<noteq> k) ps else (k', v') # set_first k v ps)"

definition params_set :: "js_string \<Rightarrow> js_string \<Rightarrow> url_search_params \<Rightarrow> url_search_params" where
  "params_set k v ps = set_first k v ps"

text \<open>
  \<^verbatim>\<open>
  useEffect(() => {
    if (!showInbox || !userId) return;
    ...
    const params = new URLSearchParams({ user_id: userId, status: filter, limit: "50" });
    if (debouncedSearch) params.set("query", debouncedSearch);
    fetch(`/api/inbox/messages?${params.toString()}`)
  \<close>
  \<open>inbox_messages_query\<close> is the query the effect sends, \<open>None\<close> when it returns
  before sending one.
\<close>

definition inbox_messages_params :: "js_string \<Rightarrow> InboxFilter \<Rightarrow> js_string \<Rightarrow> url_search_params" where
  "inbox_messages_params uid f search =
     (let params = [(js ''user_id'', uid), (js ''status'', filter_name f), (js ''limit'', js ''50'')]
      in if truthy search then params_set (js ''query'') search params else params)"

definition inbox_messages_query :: "home \<Rightarrow> url_search_params option" where
  "inbox_messages_query s =
     (if \<not> showInbox s \<or> \<not> truthy_opt (userId s) then None
      else Some (inbox_messages_params (the (userId s)) (inboxFilter s) (debouncedSearch s)))"

text \<open>
  \<^verbatim>\<open>
      .then((payload) => {
        if (!active) return;
        setMessages(payload);
        setSelectedMessage((previous) => {
          if (!payload.length) return null;
          if (previous) {
            const stillExists = payload.find((item) => item.id === previous.id);
            if (stillExists) return stillExists;
          }
          return payload[0];
        });
      })
      .catch((error) => {
        console.error(error);
        if (active) {
          setMessagesError("Unable to load inbox preview.");
          setMessages([]);
          setSelectedMessage(null);
        }
      })
      .finally(() => {
        if (active) setMessagesLoading(false);
      });
  \<close>
  \<open>active\<close> is false once the effect has been cleaned up (the load was superseded).
\<close>

definition select_after_load :: "InboxMessage list \<Rightarrow> InboxMessage option \<Rightarrow> InboxMessage option" where
  "select_after_load payload previous =
     (case payload of
        [] \<Rightarrow> None
      | first # _ \<Rightarrow>
          (case previous of
             None \<Rightarrow> Some first
           | Some p \<Rightarrow>
               (case find (\<lambda>item. im_id item = im_id p) payload of
                  Some stillExists \<Rightarrow> Some stillExists
                | None \<Rightarrow> Some first)))"

definition on_messages_loaded :: "bool \<Rightarrow> InboxMessage list \<Rightarrow> home \<Rightarrow> home" where
  "on_messages_loaded active payload s =
     (if \<not> active then s
      else s\<lparr> messages := payload,
              selectedMessage := select_after_load payload (selectedMessage s) \<rparr>)"

definition on_messages_failed :: "bool \<Rightarrow> home \<Rightarrow> home" where
  "on_messages_failed active s =
     (if active
      then s\<lparr> messagesError := Some (js ''Unable to load inbox preview.''),
              messages := [],
              selectedMessage := None \<rparr>
      else s)"

definition on_messages_settled :: "bool \<Rightarrow> home \<Rightarrow> home" where
  "on_messages_settled active s = (if active then s\<lparr> messagesLoading := False \<rparr> else s)"

text \<open>
  The outcome of one load: the request or the reading of its body failed (also a response
  that is not ok), or the list of messages arrived.
\<close>

datatype load_outcome = LoadFailed | Loaded "InboxMessage list"

definition complete_load :: "bool \<Rightarrow> load_outcome \<Rightarrow> home \<Rightarrow> home" where
  "complete_load active outcome s =
     on_messages_settled active
       (case outcome of
          Loaded payload \<Rightarrow> on_messages_loaded active payload s
        | LoadFailed \<Rightarrow> on_messages_failed active s)"

definition loaded_list :: "load_outcome \<Rightarrow> InboxMessage list" where
  "loaded_list outcome = (case outcome of Loaded payload \<Rightarrow> payload | LoadFailed \<Rightarrow> [])"

text \<open>
  The only other writer of \<open>selectedMessage\<close> is the click on a message of the list:
  \<^verbatim>\<open>{messages.map((message) => (<button ... onClick={() => setSelectedMessage(message)}>\<close>.
  The selection is consistent with the list when it is null exactly for the empty list and
  is otherwise one of the list's messages.
\<close>

definition click_message :: "nat \<Rightarrow> home \<Rightarrow> home" where
  "click_message i s =
     (if i < length (messages s) then s\<lparr> selectedMessage := Some (messages s ! i) \<rparr> else s)"

definition selection_consistent :: "home \<Rightarrow> bool" where
  "selection_consistent s =
     (case selectedMessage s of
        None \<Rightarrow> messages s = []
      | Some m \<Rightarrow> m \<in> set (messages s))"

section \<open>Connections and sync on the Home page\<close>

text \<open>
  \<^verbatim>\<open>
  const baselineReady = gmailStatus.baseline_ready ?? false;
  const canProceed = gmailState === "connected" && hubspotState === "connected" && baselineReady;
  \<close>
\<close>

definition baselineReady :: "home \<Rightarrow> bool" where
  "baselineReady s = (case gs_baseline_ready (gmailStatus s) of None \<Rightarrow> False | Some b \<Rightarrow> b)"

definition canProceed :: "home \<Rightarrow> bool" where
  "canProceed s = (gmailState s = connected \<and> hubspotState s = connected \<and> baselineReady s)"

text \<open>
  The two manual entry points:
  \<^verbatim>\<open>
  <Button ... disabled={!canProceed || isSyncing} onClick={() => triggerSync({ openInsights: true })}>
  <Button ... disabled={!gmailStatus.connected || !baselineReady || isSyncing} onClick={() => triggerSync()}>
  \<close>
\<close>

definition next_disabled :: "home \<Rightarrow> bool" where
  "next_disabled s = (\<not> canProceed s \<or> isSyncing s)"

definition sync_again_disabled :: "home \<Rightarrow> bool" where
  "sync_again_disabled s = (\<not> gs_connected (gmailStatus s) \<or> \<not> baselineReady s \<or> isSyncing s)"

text \<open>
  A call of \<open>triggerSync\<close> is an asynchronous function: it runs to its first
  \<open>await\<close>, and goes on when the awaited promise settles. The page keeps the calls that
  have not returned yet (\<open>in_flight\<close>) and, as a log, every call that sent a request
  (\<open>started\<close>); neither is state of the component.
\<close>

datatype sync_origin = Automatic | NextButton | SyncAgainButton

record sync_call =
  call_user :: js_string
  call_max_messages :: int
  call_origin :: sync_origin
  call_open_insights :: bool
  call_awaiting_status :: bool

record page =
  ui :: home
  in_flight :: "sync_call list"
  started :: "sync_call list"

text \<open>
  \<^verbatim>\<open>
  const triggerSync = useCallback(
    async (opts?: { openInsights?: boolean }) => {
      if (!userId) return;
      setIsSyncing(true);
      setSyncMessage(!gmailStatus.baseline_ready ? "Preparing Gmail baseline..." : null);
      try {
        const res = await fetch("/api/gmail/sync/start", {
          method: "POST",
          headers: { "Content-Type": "application/json" },
          body: JSON.stringify({ user_id: userId, max_messages: 200 }),
        });
        if (!res.ok) {
          const detail = await res.text();
          throw new Error(detail || "Failed to start Gmail sync");
        }
        const payload = await res.json();
        setSyncMessage(`Captured ${payload.processed} messages`);
        if (opts?.openInsights) setShowInsights(true);
        await fetchGmailStatus();
      } catch (error) {
        console.error(error);
        setSyncMessage("Sync failed. Try again.");
      } finally {
        setIsSyncing(false);
      }
    },
    [fetchGmailStatus, gmailStatus.baseline_ready, userId],
  );
  \<close>
  \<open>triggerSync\<close> is the part up to the request; \<open>closure\<close> is the state of the render
  that created the callback (its \<open>userId\<close> and \<open>gmailStatus.baseline_ready\<close>).
\<close>

definition new_sync_call :: "js_string \<Rightarrow> sync_origin \<Rightarrow> bool \<Rightarrow> sync_call" where
  "new_sync_call u origin openInsights =
     \<lparr> call_user = u, call_max_messages = 200, call_origin = origin,
       call_open_insights = openInsights, call_awaiting_status = False \<rparr>"

definition triggerSync :: "sync_origin \<Rightarrow> bool \<Rightarrow> home \<Rightarrow> page \<Rightarrow> page" where
  "triggerSync origin openInsights closure p =
     (if \<not> truthy_opt (userId closure) then p
      else p\<lparr> ui := (ui p)\<lparr> isSyncing := True,
                          syncMessage :=
                            (if gs_baseline_ready (gmailStatus closure) \<noteq> Some True
                             then Some (js ''Preparing Gmail baseline...'') else None) \<rparr>,
              in_flight := in_flight p @ [new_sync_call (the (userId closure)) origin openInsights],
              started := started p @ [new_sync_call (the (userId closure)) origin openInsights] \<rparr>)"

text \<open>
  \<^verbatim>\<open>
  const fetchGmailStatus = useCallback(async () => {
    if (!userId) return;
    try {
      const res = await fetch(`/api/gmail/status?user_id=${encodeURIComponent(userId)}`);
      if (!res.ok) throw new Error("Failed to load Gmail status");
      const payload = (await res.json()) as GmailStatus;
      setGmailStatus(payload);
      setGmailState(payload.connected ? "connected" : "disconnected");
    } catch (error) {
      console.error(error);
      setGmailStatus({ connected: false, counts: { new: 0, processed: 0, error: 0 }, baseline_ready: false });
      setGmailState("disconnected");
    }
  }, [userId]);
  \<close>
  The outcome of the request is \<open>Some payload\<close>, or \<open>None\<close> when it failed.
  \<open>fetchHubSpotStatus\<close> is alike. In a payload, \<open>baseline_ready\<close> is \<open>None\<close> when
  it is null or missing.
\<close>

definition gmail_status_arrived :: "GmailStatus option \<Rightarrow> home \<Rightarrow> home" where
  "gmail_status_arrived r s =
     (case r of
        Some payload \<Rightarrow>
          s\<lparr> gmailStatus := payload,
              gmailState := (if gs_connected payload then connected else disconnected) \<rparr>
      | None \<Rightarrow> s\<lparr> gmailStatus := default_gmail_status, gmailState := disconnected \<rparr>)"

definition hubspot_status_arrived :: "HubSpotStatus option \<Rightarrow> home \<Rightarrow> home" where
  "hubspot_status_arrived r s =
     (case r of
        Some payload \<Rightarrow>
          s\<lparr> hubspotStatus := Some payload,
              hubspotState := (if hs_connected payload then connected else disconnected),
              hubspotError := None \<rparr>
      | None \<Rightarrow>
          s\<lparr> hubspotError := Some (js ''Unable to load HubSpot status.''),
              hubspotState := disconnected \<rparr>)"

text \<open>
  The continuation of a call of \<open>triggerSync\<close> after the response to its request: on a
  failure (the request rejected, a response that is not ok, a body that is not JSON) the catch
  and finally blocks run; otherwise the call goes on to await \<open>fetchGmailStatus\<close>.
\<close>

datatype sync_response = SyncFailed | SyncOk int

definition drop_at :: "nat \<Rightarrow> 'a list \<Rightarrow> 'a list" where
  "drop_at i xs = take i xs @ drop (Suc i) xs"

definition sync_responded :: "nat \<Rightarrow> sync_response \<Rightarrow> page \<Rightarrow> page" where
  "sync_responded i r p =
     (if i < length (in_flight p) \<and> \<not> call_awaiting_status (in_flight p ! i) then
        (case r of
           SyncFailed \<Rightarrow>
             p\<lparr> ui := (ui p)\<lparr> syncMessage := Some (js ''Sync failed. Try again.''),
                                isSyncing := False \<rparr>,
                 in_flight := drop_at i (in_flight p) \<rparr>
         | SyncOk n \<Rightarrow>
             p\<lparr> ui := (ui p)\<lparr> syncMessage :=
                                  Some (js ''Captured '' @ number_to_string n @ js '' messages''),
                                showInsights :=
                                  (if call_open_insights (in_flight p ! i) then True
                                   else showInsights (ui p)) \<rparr>,
                 in_flight := (in_flight p)
                   [i := (in_flight p ! i)\<lparr> call_awaiting_status := True \<rparr>] \<rparr>)
      else p)"

text \<open>
  The awaited \<open>fetchGmailStatus\<close> of call \<open>i\<close> has finished (it never rejects), and the
  finally block runs.
\<close>

definition sync_finished :: "nat \<Rightarrow> GmailStatus option \<Rightarrow> page \<Rightarrow> page" where
  "sync_finished i r p =
     (if i < length (in_flight p) \<and> call_awaiting_status (in_flight p ! i) then
        p\<lparr> ui := (gmail_status_arrived r (ui p))\<lparr> isSyncing := False \<rparr>,
            in_flight := drop_at i (in_flight p) \<rparr>
      else p)"

text \<open>
  What can happen to the page: the signed-in user changes, a status request or a sync
  request settles, or the user clicks a button. A button that is disabled or not rendered
  does nothing. The card shows Connect unless the state is connected (disabled while
  connecting) and Disconnect when it is connected and \<open>gmailStatus.connected\<close> holds
  (disabled while disconnecting); the page renders its buttons only for a signed-in user.
  A click on Connect sets the state to connecting and navigates away; whatever reaches the
  page before it is unloaded finds that state.
  \<^verbatim>\<open>
  const handleDisconnectGmail = async () => {
    if (!userId) return;
    setGmailDisconnecting(true);
    try {
      const res = await fetch("/api/google/disconnect", { ... });
      if (!res.ok) throw new Error("Disconnect failed");
      await fetchGmailStatus();
      setGmailState("disconnected");
    } catch (error) {
      console.error(error);
    } finally {
      setGmailDisconnecting(false);
    }
  };
  \<close>
\<close>

datatype event =
    UserChanged "js_string option"
  | GmailStatusArrived "GmailStatus option"
  | HubSpotStatusArrived "HubSpotStatus option"
  | ClickConnectGmail
  | ClickConnectHubSpot
  | ClickDisconnectGmail
  | DisconnectFailed
  | DisconnectDone "GmailStatus option"
  | ClickNext
  | ClickSyncAgain
  | SyncResponded nat sync_response
  | SyncFinished nat "GmailStatus option"

fun handle :: "event \<Rightarrow> page \<Rightarrow> page" where
  "handle (UserChanged u) p = p\<lparr> ui := (ui p)\<lparr> userId := u \<rparr> \<rparr>"
| "handle (GmailStatusArrived r) p = p\<lparr> ui := gmail_status_arrived r (ui p) \<rparr>"
| "handle (HubSpotStatusArrived r) p = p\<lparr> ui := hubspot_status_arrived r (ui p) \<rparr>"
| "handle ClickConnectGmail p =
     (if truthy_opt (userId (ui p)) \<and> gmailState (ui p) = disconnected
      then p\<lparr> ui := (ui p)\<lparr> gmailState := connecting \<rparr> \<rparr> else p)"
| "handle ClickConnectHubSpot p =
     (if truthy_opt (userId (ui p)) \<and> hubspotState (ui p) = disconnected
      then p\<lparr> ui := (ui p)\<lparr> hubspotState := connecting \<rparr> \<rparr> else p)"
| "handle ClickDisconnectGmail p =
     (if truthy_opt (userId (ui p)) \<and> gmailState (ui p) = connected \<and>
         gs_connected (gmailStatus (ui p)) \<and> \<not> gmailDisconnecting (ui p)
      then p\<lparr> ui := (ui p)\<lparr> gmailDisconnecting := True \<rparr> \<rparr> else p)"
| "handle DisconnectFailed p = p\<lparr> ui := (ui p)\<lparr> gmailDisconnecting := False \<rparr> \<rparr>"
| "handle (DisconnectDone r) p =
     p\<lparr> ui := (gmail_status_arrived r (ui p))
                 \<lparr> gmailState := disconnected, gmailDisconnecting := False \<rparr> \<rparr>"
| "handle ClickNext p =
     (if \<not> truthy_opt (userId (ui p)) \<or> next_disabled (ui p) then p
      else triggerSync NextButton True (ui p) p)"
| "handle ClickSyncAgain p =
     (if \<not> truthy_opt (userId (ui p)) \<or> sync_again_disabled (ui p) then p
      else triggerSync SyncAgainButton False (ui p) p)"
| "handle (SyncResponded i r) p = sync_responded i r p"
| "handle (SyncFinished i r) p = sync_finished i r p"

text \<open>
  The effects that arm and fire the automatic sync:
  \<^verbatim>\<open>
  useEffect(() => {
    setAutoSynced(false);
  }, [userId]);

  useEffect(() => {
    if (gmailState === "connected" && hubspotState === "connected" && userId && !autoSynced) {
      setAutoSynced(true);
      triggerSync();
    }
  }, [autoSynced, gmailState, hubspotState, triggerSync, userId]);
  \<close>
  After a render is committed, React runs each effect whose dependencies differ from those
  of the previous commit (every effect after the first commit), in the order of the source;
  an effect reads the state of the render it belongs to, and the state updates it makes are
  applied, in order, for the next render. \<open>triggerSync\<close> is a new function when
  \<open>userId\<close> or \<open>gmailStatus.baseline_ready\<close> has changed. \<open>commit prev p\<close> runs the
  two effects for the render of \<open>ui p\<close>, \<open>prev\<close> being the state of the previous commit.
\<close>

definition auto_sync_deps_changed :: "home \<Rightarrow> home \<Rightarrow> bool" where
  "auto_sync_deps_changed q s =
     (autoSynced q \<noteq> autoSynced s \<or> gmailState q \<noteq> gmailState s \<or>
      hubspotState q \<noteq> hubspotState s \<or>
      gs_baseline_ready (gmailStatus q) \<noteq> gs_baseline_ready (gmailStatus s) \<or>
      userId q \<noteq> userId s)"

definition commit :: "home option \<Rightarrow> page \<Rightarrow> page" where
  "commit prev p =
     (let s = ui p;
          run_reset = (case prev of None \<Rightarrow> True | Some q \<Rightarrow> userId q \<noteq> userId s);
          run_auto = (case prev of None \<Rightarrow> True | Some q \<Rightarrow> auto_sync_deps_changed q s);
          p1 = (if run_reset then p\<lparr> ui := s\<lparr> autoSynced := False \<rparr> \<rparr> else p)
      in if run_auto \<and> gmailState s = connected \<and> hubspotState s = connected \<and>
            truthy_opt (userId s) \<and> \<not> autoSynced s
         then triggerSync Automatic False s (p1\<lparr> ui := (ui p1)\<lparr> autoSynced := True \<rparr> \<rparr>)
         else p1)"

text \<open>
  A commit whose effects changed the state is followed by another render and commit, until
  nothing changes.
\<close>

function settle :: "home option \<Rightarrow> page \<Rightarrow> page" where
  "settle prev p =
     (let p' = commit prev p
      in if ui p' = ui p then p' else settle (Some (ui p)) p')"
  by pat_completeness auto
termination
proof (relation "measure (\<lambda>(prev, p).
    (if (case prev of None \<Rightarrow> True | Some q \<Rightarrow> userId q \<noteq> userId (ui p)) then 2 else 0) +
    (if autoSynced (ui p) then 0 else 1))")
  show "wf (measure (\<lambda>(prev, p).
    (if (case prev of None \<Rightarrow> True | Some q \<Rightarrow> userId q \<noteq> userId (ui p)) then 2 else 0) +
    (if autoSynced (ui p) then 0 else (1::nat))))"
    by simp
next
  fix prev :: "home option" and p p' :: page
  assume p': "p' = commit prev p" and changed: "ui p' \<noteq> ui p"
  show "((Some (ui p), p'), (prev, p)) \<in> measure (\<lambda>(prev, p).
    (if (case prev of None \<Rightarrow> True | Some q \<Rightarrow> userId q \<noteq> userId (ui p)) then 2 else 0) +
    (if autoSynced (ui p) then 0 else 1))"
    using changed unfolding p'
    by (auto simp add: commit_def triggerSync_def Let_def split: option.splits if_splits)
qed

declare settle.simps [simp del]

definition dispatch :: "event \<Rightarrow> page \<Rightarrow> page" where
  "dispatch e p = settle (Some (ui p)) (handle e p)"

definition mount :: "js_string option \<Rightarrow> page" where
  "mount u = settle None \<lparr> ui = initial_home u, in_flight = [], started = [] \<rparr>"

fun run :: "event list \<Rightarrow> page \<Rightarrow> page" where
  "run [] p = p"
| "run (e # es) p = run es (dispatch e p)"

definition both_connected :: "home \<Rightarrow> bool" where
  "both_connected s = (gmailState s = connected \<and> hubspotState s = connected)"

text \<open>Both connections are in the connected state now or after some prefix of the events.\<close>

fun ever_both_connected :: "event list \<Rightarrow> page \<Rightarrow> bool" where
  "ever_both_connected [] p = both_connected (ui p)"
| "ever_both_connected (e # es) p =
     (both_connected (ui p) \<or> ever_both_connected es (dispatch e p))"

definition is_user_event :: "event \<Rightarrow> bool" where
  "is_user_event e = (case e of UserChanged u \<Rightarrow> True | _ \<Rightarrow> False)"

definition auto_calls :: "page \<Rightarrow> sync_call list" where
  "auto_calls p = filter (\<lambda>c. call_origin c = Automatic) (started p)"

definition manual_calls :: "page \<Rightarrow> sync_call list" where
  "manual_calls p = filter (\<lambda>c. call_origin c \<noteq> Automatic) (started p)"

text \<open>
  A page is settled when the automatic sync has been fired for a signed-in user whose
  connections are both connected; \<open>fire_auto\<close> is what the second effect does when its
  condition holds.
\<close>

definition settled :: "page \<Rightarrow> bool" where
  "settled p = (both_connected (ui p) \<and> truthy_opt (userId (ui p)) \<longrightarrow> autoSynced (ui p))"

definition fire_auto :: "page \<Rightarrow> page" where
  "fire_auto p = triggerSync Automatic False (ui p) (p\<lparr> ui := (ui p)\<lparr> autoSynced := True \<rparr> \<rparr>)"

text \<open>
  The connection state is consistent with the status when "connected" is shown only for a
  status that says so.
\<close>

definition status_consistent :: "home \<Rightarrow> bool" where
  "status_consistent s = (gmailState s = connected \<longrightarrow> gs_connected (gmailStatus s))"

section \<open>The database (infra/supabase/schema.sql)\<close>

text \<open>
  \<^verbatim>\<open>
  create table if not exists gmail_connections (
    user_id text primary key,
    gmail_user varchar(255) not null,
    email varchar(255),
    baseline_at timestamptz not null,
    baseline_ready boolean not null default false,
    last_poll_at timestamptz,
    created_at timestamptz not null default now(),
    updated_at timestamptz not null default now()
  );
  create table if not exists gmail_messages (
    id uuid primary key default gen_random_uuid(),
    user_id text not null references gmail_connections(user_id) on delete cascade,
    message_id text not null,
    thread_id text, subject text, sender text, snippet text, preview text,
    status text not null default 'new',
    has_attachments boolean not null default false,
    has_images boolean not null default false,
    has_links boolean not null default false,
    gmail_url text, crm_record_url text, error text,
    received_at timestamptz,
    created_at timestamptz not null default now(),
    updated_at timestamptz not null default now(),
    unique (user_id, message_id)
  );
  \<close>
  A table is the list of its rows, a nullable column an option, \<open>text\<close> a string and
  \<open>timestamptz\<close> an integer (microseconds). A row id stands for the uuid; a new row gets
  an id no row of the table has.
\<close>

type_synonym instant = int

record gmail_connection =
  conn_user_id :: string
  conn_gmail_user :: string
  conn_email :: "string option"
  conn_baseline_at :: instant
  conn_baseline_ready :: bool
  conn_last_poll_at :: "instant option"
  conn_created_at :: instant
  conn_updated_at :: instant

record gmail_message =
  msg_row_id :: nat
  msg_user_id :: string
  msg_message_id :: string
  msg_thread_id :: "string option"
  msg_subject :: "string option"
  msg_sender :: "string option"
  msg_snippet :: "string option"
  msg_preview :: "string option"
  msg_status :: string
  msg_has_attachments :: bool
  msg_has_images :: bool
  msg_has_links :: bool
  msg_gmail_url :: "string option"
  msg_crm_record_url :: "string option"
  msg_error :: "string option"
  msg_received_at :: "instant option"
  msg_created_at :: instant
  msg_updated_at :: instant

record database =
  gmail_connections :: "gmail_connection list"
  gmail_messages :: "gmail_message list"

definition empty_database :: database where
  "empty_database = \<lparr> gmail_connections = [], gmail_messages = [] \<rparr>"

definition message_key :: "gmail_message \<Rightarrow> string \<times> string" where
  "message_key m = (msg_user_id m, msg_message_id m)"

definition fresh_row_id :: "gmail_message list \<Rightarrow> nat" where
  "fresh_row_id ms = Suc (fold max (map msg_row_id ms) 0)"

text \<open>
  The connection a message row references, and two constraints of the schema as
  predicates: \<open>unique (user_id, message_id)\<close>, and the foreign key of
  \<open>gmail_messages.user_id\<close> (no message row without its connection row).
\<close>

definition owner_of :: "gmail_connection list \<Rightarrow> string \<Rightarrow> gmail_connection option" where
  "owner_of cs uid = find (\<lambda>c. conn_user_id c = uid) cs"

definition connection_of :: "database \<Rightarrow> string \<Rightarrow> gmail_connection option" where
  "connection_of db uid = owner_of (gmail_connections db) uid"

definition keys_unique :: "database \<Rightarrow> bool" where
  "keys_unique db = distinct (map message_key (gmail_messages db))"

definition no_orphans :: "database \<Rightarrow> bool" where
  "no_orphans db =
     list_all (\<lambda>m. connection_of db (msg_user_id m) \<noteq> None) (gmail_messages db)"

text \<open>
  An \<open>insert\<close> into \<open>gmail_messages\<close> is refused when it would break a constraint.
\<close>

datatype db_error = PrimaryKeyViolation | ForeignKeyViolation | UniqueViolation

definition insert_message :: "gmail_message \<Rightarrow> database \<Rightarrow> db_error + database" where
  "insert_message row db =
     (if msg_row_id row \<in> set (map msg_row_id (gmail_messages db)) then Inl PrimaryKeyViolation
      else if connection_of db (msg_user_id row) = None then Inl ForeignKeyViolation
      else if message_key row \<in> set (map message_key (gmail_messages db)) then Inl UniqueViolation
      else Inr (db\<lparr> gmail_messages := gmail_messages db @ [row] \<rparr>))"

text \<open>
  The row that \<open>insert into gmail_messages (user_id, message_id) values (uid, mid)\<close>
  writes at instant \<open>now\<close>: every other column takes its default, and null where the
  schema names none.
\<close>

definition default_row :: "nat \<Rightarrow> string \<Rightarrow> string \<Rightarrow> instant \<Rightarrow> gmail_message" where
  "default_row rid uid mid now =
     \<lparr> msg_row_id = rid, msg_user_id = uid, msg_message_id = mid,
       msg_thread_id = None, msg_subject = None, msg_sender = None, msg_snippet = None,
       msg_preview = None, msg_status = ''new'',
       msg_has_attachments = False, msg_has_images = False, msg_has_links = False,
       msg_gmail_url = None, msg_crm_record_url = None, msg_error = None,
       msg_received_at = None, msg_created_at = now, msg_updated_at = now \<rparr>"

text \<open>
  \<open>delete from gmail_connections where user_id = uid\<close>: by \<open>on delete cascade\<close> the
  rows of \<open>gmail_messages\<close> that reference the deleted row are deleted with it.
\<close>

definition delete_connection :: "string \<Rightarrow> database \<Rightarrow> database" where
  "delete_connection uid db =
     \<lparr> gmail_connections = filter (\<lambda>c. conn_user_id c \<noteq> uid) (gmail_connections db),
       gmail_messages = filter (\<lambda>m. msg_user_id m \<noteq> uid) (gmail_messages db) \<rparr>"

section \<open>The back end, from the specification\<close>

text \<open>
  The repository's files hold the front end and the schema; the back end that reads the
  mailbox and writes the tables is not among them. The definitions of this section follow
  the specification's sections 3 and 4.
\<close>

subsection \<open>Connection Store\<close>

text \<open>
  Modelled from the spec: \<open>getConnection(userId, provider)\<close> of the Connection Store,
  for the Gmail connection.
\<close>

definition getConnection :: "database \<Rightarrow> string \<Rightarrow> gmail_connection option" where
  "getConnection db uid = connection_of db uid"

text \<open>
  Modelled from the spec: \<open>upsertConnection\<close> together with \<open>setBaseline\<close> (which "sets
  \<open>baseline_at\<close> once, idempotent no-op if already set"; "\<open>baseline_at\<close> is immutable once
  set"). The column is \<open>not null\<close>, so a connection row has its baseline from the moment
  it is inserted: a first authorization inserts the row with the current instant as
  \<open>baseline_at\<close> and \<open>baseline_ready\<close> false, a later one refreshes the account fields
  and leaves the baseline as it is.
\<close>

definition upsertConnection ::
  "string \<Rightarrow> string \<Rightarrow> string option \<Rightarrow> instant \<Rightarrow> database \<Rightarrow> database" where
  "upsertConnection uid gmail_user email now db =
     (case connection_of db uid of
        None \<Rightarrow>
          db\<lparr> gmail_connections := gmail_connections db @
                [\<lparr> conn_user_id = uid, conn_gmail_user = gmail_user, conn_email = email,
                   conn_baseline_at = now, conn_baseline_ready = False,
                   conn_last_poll_at = None, conn_created_at = now, conn_updated_at = now \<rparr>] \<rparr>
      | Some _ \<Rightarrow>
          db\<lparr> gmail_connections :=
                map (\<lambda>c. if conn_user_id c = uid
                          then c\<lparr> conn_gmail_user := gmail_user, conn_email := email,
                                  conn_updated_at := now \<rparr>
                          else c)
                    (gmail_connections db) \<rparr>)"

text \<open>Modelled from the spec: \<open>markBaselineReady(userId)\<close> of the Connection Store.\<close>

definition markBaselineReady :: "string \<Rightarrow> database \<Rightarrow> database" where
  "markBaselineReady uid db =
     db\<lparr> gmail_connections :=
           map (\<lambda>c. if conn_user_id c = uid then c\<lparr> conn_baseline_ready := True \<rparr> else c)
               (gmail_connections db) \<rparr>"

text \<open>
  Modelled from the spec: \<open>disconnect(userId, provider)\<close> for Gmail, which "deletes the
  connection and, for Gmail, cascades delete of all that user's Messages": the back end
  deletes the connection row, and the schema's \<open>on delete cascade\<close> does the rest.
\<close>

definition disconnect :: "string \<Rightarrow> database \<Rightarrow> database" where
  "disconnect uid db = delete_connection uid db"

subsection \<open>Status Classifier\<close>

text \<open>
  Modelled from the spec: the inputs and the result of the Status Classifier, which are
  what the external mailbox returns for one message (the "raw mailbox metadata"), what the
  external enrichment step reports for one ("success" with the CRM record's link, or
  "failure" with its detail), and the "\<open>{status, flags}\<close>" it yields.
  \<open>raw_failure\<close> is the diagnostic when fetching or classifying this message failed.
\<close>

record raw_message =
  raw_message_id :: string
  raw_thread_id :: "string option"
  raw_subject :: "string option"
  raw_sender :: "string option"
  raw_snippet :: "string option"
  raw_preview :: "string option"
  raw_gmail_url :: "string option"
  raw_body :: string
  raw_attachment_parts :: nat
  raw_inline_image_parts :: nat
  raw_received_at :: instant
  raw_failure :: "string option"

datatype enrichment_outcome = EnrichmentSucceeded string | EnrichmentFailed string

record classification =
  cls_status :: string
  cls_has_attachments :: bool
  cls_has_images :: bool
  cls_has_links :: bool
  cls_crm_record_url :: "string option"
  cls_error :: "string option"

text \<open>\<open>contains pat s\<close>: the pattern occurs in the string.\<close>

fun contains :: "string \<Rightarrow> string \<Rightarrow> bool" where
  "contains pat [] = (pat = [])"
| "contains pat (c # cs) = (take (length pat) (c # cs) = pat \<or> contains pat cs)"

text \<open>
  Modelled from the spec: the Status Classifier's pure function
  \<open>classify(rawMessage, enrichmentOutcome)\<close>. "Initial ingestion always yields new"; a
  reported success "yields processed with \<open>crm_record_url\<close> populated; a reported failure
  yields error with the failure detail attached"; the flags are the "presence of attachment
  parts, presence of http(s):// patterns in the body, presence of inline image parts".
\<close>

definition classify :: "raw_message \<Rightarrow> enrichment_outcome option \<Rightarrow> classification" where
  "classify raw outcome =
     (let flags = \<lparr> cls_status = ''new'',
                    cls_has_attachments = (0 < raw_attachment_parts raw),
                    cls_has_images = (0 < raw_inline_image_parts raw),
                    cls_has_links =
                      (contains ''http://'' (raw_body raw) \<or> contains ''https://'' (raw_body raw)),
                    cls_crm_record_url = None,
                    cls_error = None \<rparr>
      in case outcome of
           None \<Rightarrow> flags
         | Some (EnrichmentSucceeded url) \<Rightarrow>
             flags\<lparr> cls_status := ''processed'', cls_crm_record_url := Some url \<rparr>
         | Some (EnrichmentFailed detail) \<Rightarrow>
             flags\<lparr> cls_status := ''error'', cls_error := Some detail \<rparr>)"

subsection \<open>Message Store\<close>

text \<open>
  Modelled from the spec: the row the Message Store inserts for a message it has not stored,
  with the fields of section 3 filled from the mailbox's message and the classifier's
  result, and the schema's defaults otherwise.
\<close>

definition insert_row ::
  "nat \<Rightarrow> string \<Rightarrow> raw_message \<Rightarrow> classification \<Rightarrow> instant \<Rightarrow> gmail_message" where
  "insert_row rid uid raw cls as_of =
     (default_row rid uid (raw_message_id raw) as_of)
       \<lparr> msg_thread_id := raw_thread_id raw, msg_subject := raw_subject raw,
         msg_sender := raw_sender raw, msg_snippet := raw_snippet raw,
         msg_preview := raw_preview raw,
         msg_status := cls_status cls,
         msg_has_attachments := cls_has_attachments cls,
         msg_has_images := cls_has_images cls,
         msg_has_links := cls_has_links cls,
         msg_gmail_url := raw_gmail_url raw,
         msg_crm_record_url := cls_crm_record_url cls, msg_error := cls_error cls,
         msg_received_at := Some (raw_received_at raw) \<rparr>"

text \<open>
  Modelled from the spec: what the upsert does to the row it finds: "an existing row's
  mutable fields (status, crm_record_url, error, updated_at) are overwritten only if the new
  data is not older; subject/sender/snippet are refreshed unconditionally". \<open>as_of\<close> is
  the instant the written data was produced; it is not older when the row was not updated
  after it.
\<close>

definition update_row :: "raw_message \<Rightarrow> classification \<Rightarrow> instant \<Rightarrow> gmail_message \<Rightarrow> gmail_message" where
  "update_row raw cls as_of m =
     (let refreshed = m\<lparr> msg_subject := raw_subject raw, msg_sender := raw_sender raw,
                          msg_snippet := raw_snippet raw \<rparr>
      in if msg_updated_at m \<le> as_of
         then refreshed\<lparr> msg_status := cls_status cls,
                         msg_crm_record_url := cls_crm_record_url cls,
                         msg_error := cls_error cls,
                         msg_updated_at := as_of \<rparr>
         else refreshed)"

text \<open>
  Modelled from the spec: the Message Store's upsert, "insert-or-update keyed by
  \<open>(user_id, message_id)\<close>, the dedup unit for ingestion".
\<close>

definition upsert_row ::
  "string \<Rightarrow> raw_message \<Rightarrow> classification \<Rightarrow> instant \<Rightarrow> gmail_message list \<Rightarrow> gmail_message list" where
  "upsert_row uid raw cls as_of ms =
     (if (uid, raw_message_id raw) \<in> set (map message_key ms)
      then map (\<lambda>m. if message_key m = (uid, raw_message_id raw)
                     then update_row raw cls as_of m else m) ms
      else ms @ [insert_row (fresh_row_id ms) uid raw cls as_of])"

text \<open>
  Modelled from the spec: the eviction of the bounded cache, "oldest rows beyond a cap are
  evicted after each sync pass": of the user's rows the \<open>cap\<close> most recently received
  stay.
\<close>

definition evict :: "nat \<Rightarrow> string \<Rightarrow> gmail_message list \<Rightarrow> gmail_message list" where
  "evict cap uid ms =
     (let mine = filter (\<lambda>m. msg_user_id m = uid) ms;
          kept = take cap (rev (sort_key msg_received_at mine))
      in filter (\<lambda>m. msg_user_id m \<noteq> uid \<or> m \<in> set kept) ms)"

subsection \<open>Sync Worker\<close>

text \<open>
  Modelled from the spec: step 1 of \<open>runSync\<close>, the fetch floor
  "\<open>max(baseline_at, last_poll_at)\<close> if \<open>last_poll_at\<close> is set, else \<open>baseline_at\<close>".
\<close>

definition fetch_floor :: "gmail_connection \<Rightarrow> instant" where
  "fetch_floor c =
     (case conn_last_poll_at c of
        None \<Rightarrow> conn_baseline_at c
      | Some lp \<Rightarrow> max (conn_baseline_at c) lp)"

text \<open>
  Modelled from the spec: step 2, "up to \<open>maxMessages\<close> messages from the external mailbox
  with \<open>received_at\<close> strictly greater than the floor, ordered oldest-first". The list is
  what the mailbox returned; the worker keeps what passes the floor (the ingestion filter).
\<close>

definition fetch_window :: "instant \<Rightarrow> nat \<Rightarrow> raw_message list \<Rightarrow> raw_message list" where
  "fetch_window floor_at maxMessages returned =
     take maxMessages (sort_key raw_received_at (filter (\<lambda>m. floor_at < raw_received_at m) returned))"

text \<open>
  Modelled from the spec: step 3 for one message, "derive flags and initial status via the
  Status Classifier, then upsert"; and for a message that failed, "a failure fetching or
  classifying an individual message marks that message error with diagnostic text and does
  not abort the batch": the failure is reported through the classifier like a failed
  enrichment, after the message has been ingested.
\<close>

definition ingest :: "string \<Rightarrow> instant \<Rightarrow> raw_message \<Rightarrow> gmail_message list \<Rightarrow> gmail_message list" where
  "ingest uid now raw ms =
     (let stored = upsert_row uid raw (classify raw None) now ms
      in case raw_failure raw of
           None \<Rightarrow> stored
         | Some detail \<Rightarrow>
             upsert_row uid raw (classify raw (Some (EnrichmentFailed detail))) now stored)"

text \<open>
  Modelled from the spec: step 4, "advance \<open>last_poll_at\<close> to the \<open>received_at\<close> of the
  last message actually processed in this batch (not to now)".
\<close>

definition advance_last_poll :: "string \<Rightarrow> raw_message list \<Rightarrow> gmail_connection list \<Rightarrow> gmail_connection list" where
  "advance_last_poll uid batch cs =
     (case batch of
        [] \<Rightarrow> cs
      | _ # _ \<Rightarrow>
          map (\<lambda>c. if conn_user_id c = uid
                    then c\<lparr> conn_last_poll_at := Some (raw_received_at (last batch)) \<rparr>
                    else c) cs)"

text \<open>
  Modelled from the spec: the two answers of the external mailbox API (it cannot be
  contacted, or it returns messages) and the two ways \<open>runSync\<close> fails.
\<close>

datatype mailbox_response = MailboxUnavailable | MailboxReturned "raw_message list"

datatype sync_error = NotConnected | MailboxFailed

text \<open>
  Modelled from the spec: \<open>runSync(userId, maxMessages) -> {processed: count}\<close> of the
  Sync Worker, steps 1 to 5, with the retention cap of step 5 as a parameter. Without a
  connection it refuses; "a failure contacting the external mailbox API aborts the whole
  pass without advancing \<open>last_poll_at\<close>". The pass of the Baseline Establisher is the
  same pass on a connection whose \<open>baseline_ready\<close> is false: "only after that pass
  completes" does it set \<open>baseline_ready\<close>, and after a failure "the next sync attempt
  retries the same pass".
\<close>

definition runSync ::
  "nat \<Rightarrow> string \<Rightarrow> nat \<Rightarrow> mailbox_response \<Rightarrow> instant \<Rightarrow> database \<Rightarrow> sync_error + (database \<times> nat)" where
  "runSync cap uid maxMessages mailbox now db =
     (case getConnection db uid of
        None \<Rightarrow> Inl NotConnected
      | Some c \<Rightarrow>
          (case mailbox of
             MailboxUnavailable \<Rightarrow> Inl MailboxFailed
           | MailboxReturned returned \<Rightarrow>
               let batch = fetch_window (fetch_floor c) maxMessages returned;
                   stored = fold (ingest uid now) batch (gmail_messages db);
                   polled = advance_last_poll uid batch (gmail_connections db);
                   db' = \<lparr> gmail_connections = polled, gmail_messages = evict cap uid stored \<rparr>
               in Inr (if conn_baseline_ready c then db' else markBaselineReady uid db',
                       length batch)))"

text \<open>
  Modelled from the spec: the enrichment step "reporting back through the Status
  Classifier": the stored message of that key takes the classifier's status, link and error.
\<close>

definition report_enrichment ::
  "string \<Rightarrow> raw_message \<Rightarrow> enrichment_outcome \<Rightarrow> instant \<Rightarrow> database \<Rightarrow> database" where
  "report_enrichment uid raw outcome now db =
     (if (uid, raw_message_id raw) \<in> set (map message_key (gmail_messages db))
      then db\<lparr> gmail_messages :=
                upsert_row uid raw (classify raw (Some outcome)) now (gmail_messages db) \<rparr>
      else db)"

subsection \<open>The operations on the store\<close>

text \<open>
  Modelled from the spec: everything that writes the tables, which is a Gmail authorization,
  a disconnect, a sync pass (with what the mailbox returned) and an enrichment report. An
  operation that fails leaves the tables as they were; a sync pass is one unit of work, and
  passes do not overlap ("at most one sync pass per user may run at a time").
\<close>

datatype store_op =
    Authorize string string "string option" instant
  | Disconnect string
  | Sync string nat mailbox_response instant
  | Enriched string raw_message enrichment_outcome instant

fun apply_op :: "nat \<Rightarrow> store_op \<Rightarrow> database \<Rightarrow> database" where
  "apply_op cap (Authorize uid gmail_user email now) db = upsertConnection uid gmail_user email now db"
| "apply_op cap (Disconnect uid) db = disconnect uid db"
| "apply_op cap (Sync uid maxMessages mailbox now) db =
     (case runSync cap uid maxMessages mailbox now db of
        Inl _ \<Rightarrow> db
      | Inr (db', _) \<Rightarrow> db')"
| "apply_op cap (Enriched uid raw outcome now) db = report_enrichment uid raw outcome now db"

fun apply_ops :: "nat \<Rightarrow> store_op list \<Rightarrow> database \<Rightarrow> database" where
  "apply_ops cap [] db = db"
| "apply_ops cap (op # ops) db = apply_ops cap ops (apply_op cap op db)"

text \<open>The invariants of the Message Store that the claims state.\<close>

definition received_before_baseline :: "gmail_connection list \<Rightarrow> gmail_message \<Rightarrow> bool" where
  "received_before_baseline cs m =
     (case owner_of cs (msg_user_id m) of
        None \<Rightarrow> False
      | Some c \<Rightarrow>
          (case msg_received_at m of
             None \<Rightarrow> False
           | Some t \<Rightarrow> t < conn_baseline_at c))"

definition baseline_respected :: "database \<Rightarrow> bool" where
  "baseline_respected db =
     (\<not> list_ex (received_before_baseline (gmail_connections db)) (gmail_messages db))"

definition status_closed :: "database \<Rightarrow> bool" where
  "status_closed db =
     list_all (\<lambda>m. msg_status m = ''new'' \<or> msg_status m = ''processed'' \<or> msg_status m = ''error'')
              (gmail_messages db)"

text \<open>
  The invariant the operations keep, row by row: a row has an owning connection and was not
  received before its baseline, and its status is one of the three.
\<close>

definition row_ok :: "gmail_connection list \<Rightarrow> gmail_message \<Rightarrow> bool" where
  "row_ok cs m =
     (\<exists>c. owner_of cs (msg_user_id m) = Some c \<and>
          (\<forall>t. msg_received_at m = Some t \<longrightarrow> conn_baseline_at c \<le> t))"

definition status_ok :: "gmail_message \<Rightarrow> bool" where
  "status_ok m = (msg_status m = ''new'' \<or> msg_status m = ''processed'' \<or> msg_status m = ''error'')"

definition store_invariant :: "database \<Rightarrow> bool" where
  "store_invariant db =
     (distinct (map message_key (gmail_messages db)) \<and>
      (\<forall>m\<in>set (gmail_messages db). row_ok (gmail_connections db) m \<and> status_ok m))"

section \<open>Example values\<close>

definition ready_gmail_status :: GmailStatus where
  "ready_gmail_status =
     \<lparr> gs_connected = True, gs_email = None, gs_last_checked_at = None, gs_counts = None,
       gs_baseline_at = None, gs_baseline_ready = Some True \<rparr>"

definition connected_hubspot_status :: HubSpotStatus where
  "connected_hubspot_status = \<lparr> hs_connected = True, hs_email = None \<rparr>"

definition overlapping_sync_trace :: "event list" where
  "overlapping_sync_trace =
     [GmailStatusArrived (Some ready_gmail_status),
      ClickSyncAgain,
      HubSpotStatusArrived (Some connected_hubspot_status),
      SyncResponded 0 (SyncOk 0),
      SyncFinished 0 (Some ready_gmail_status)]"

definition connect_then_sync_again :: "event list" where
  "connect_then_sync_again =
     [GmailStatusArrived (Some ready_gmail_status),
      HubSpotStatusArrived (Some connected_hubspot_status),
      SyncResponded 0 (SyncOk 3),
      SyncFinished 0 (Some ready_gmail_status),
      ClickSyncAgain,
      GmailStatusArrived (Some ready_gmail_status)]"

text \<open>
  A mailbox message with the given id and time of receipt and nothing else, and
  histories of a store with a retention cap of 3: the scenario of the specification (a
  baseline at 1000, one message received before it and one after), a second sync pass that
  is handed a stored message again (in \<open>reingest_scenario\<close> with a new subject), a
  first pass whose only message fails, and a pass with a message that fails, followed by
  an enrichment report.
\<close>

definition example_raw :: "string \<Rightarrow> instant \<Rightarrow> raw_message" where
  "example_raw mid t =
     \<lparr> raw_message_id = mid, raw_thread_id = None, raw_subject = None, raw_sender = None,
       raw_snippet = None, raw_preview = None, raw_gmail_url = None, raw_body = [],
       raw_attachment_parts = 0, raw_inline_image_parts = 0, raw_received_at = t,
       raw_failure = None \<rparr>"

definition baseline_scenario :: "store_op list" where
  "baseline_scenario =
     [Authorize ''u1'' ''me'' None 1000,
      Sync ''u1'' 200 (MailboxReturned [example_raw ''fresh'' 1001, example_raw ''old'' 999]) 2000]"

definition resync_scenario :: "store_op list" where
  "resync_scenario =
     [Authorize ''u1'' ''me'' None 1000,
      Sync ''u1'' 200 (MailboxReturned [example_raw ''m1'' 1001]) 2000,
      Sync ''u1'' 200 (MailboxReturned [example_raw ''m1'' 1002, example_raw ''m2'' 1003]) 3000]"

definition reingest_scenario :: "store_op list" where
  "reingest_scenario =
     [Authorize ''u1'' ''me'' None 1000,
      Sync ''u1'' 200 (MailboxReturned [example_raw ''m1'' 1001]) 2000,
      Sync ''u1'' 200
        (MailboxReturned [(example_raw ''m1'' 1002)\<lparr> raw_subject := Some ''renamed'' \<rparr>,
                          example_raw ''m2'' 1003]) 3000]"


definition stored_summary :: "database \<Rightarrow> (string \<times> string \<times> string \<times> instant option) list" where
  "stored_summary db =
     map (\<lambda>m. (msg_user_id m, msg_message_id m, msg_status m, msg_received_at m)) (gmail_messages db)"


text \<open>A message with the given id and subject and nothing else, for examples.\<close>

definition example_message :: "js_string \<Rightarrow> js_string \<Rightarrow> InboxMessage" where
  "example_message ident subj =
     \<lparr> im_id = ident, im_subject = subj, im_sender = None, im_preview = [], im_snippet = None,
       im_status = new, im_has_attachments = False, im_has_links = False, im_has_images = False,
       im_received_at = None, im_created_at = None, im_updated_at = None, im_gmail_url = None,
       im_crm_record_url = None, im_error = None \<rparr>"

section \<open>Properties of formatRelativeTime\<close>

lemma int_div_less_iff:
  fixes a b c :: int
  assumes c: "0 < c"
  shows "(a div c < b) = (a < b * c)"
proof -
  have eq: "a = c * (a div c) + a mod c" by simp
  have m0: "0 \<le> a mod c" using c by simp
  have m1: "a mod c < c" using c by simp
  show ?thesis
  proof
    assume "a div c < b"
    then have "a div c + 1 \<le> b" by simp
    then have "c * (a div c + 1) \<le> c * b" using c by (simp add: mult_left_mono)
    then have "c * (a div c) + c \<le> b * c" by (simp add: algebra_simps)
    then show "a < b * c" using eq m1 by linarith
  next
    assume lt: "a < b * c"
    show "a div c < b"
    proof (rule ccontr)
      assume "\<not> a div c < b"
      then have "b \<le> a div c" by simp
      then have "c * b \<le> c * (a div c)" using c by (simp add: mult_left_mono)
      moreover have "c * (a div c) \<le> a" using eq m0 by linarith
      ultimately have "b * c \<le> a" by (simp add: mult.commute)
      then show False using lt by simp
    qed
  qed
qed

lemma floor_minutes_hours: "(d::int) div 60000 div 60 = d div 3600000"
  using zdiv_zmult2_eq [of 60 d 60000] by simp

lemma floor_hours_days: "(d::int) div 3600000 div 24 = d div 86400000"
  using zdiv_zmult2_eq [of 24 d 3600000] by simp

lemma minutes_lt_one: "((d::int) div 60000 < 1) = (d < 60000)"
  using int_div_less_iff [of 60000 d 1] by simp

lemma minutes_lt_sixty: "((d::int) div 60000 < 60) = (d < 3600000)"
  using int_div_less_iff [of 60000 d 60] by simp

lemma hours_lt_day: "((d::int) div 3600000 < 24) = (d < 86400000)"
  using int_div_less_iff [of 3600000 d 24] by simp

text \<open>
  C10, as amended. \<open>formatRelativeTime\<close> is a total function of a nullable string: it
  gives "never" for null, undefined and the empty string, "unknown" for every non-empty
  string that does not parse to a valid date, and otherwise the description by elapsed
  time: "just now" under one minute, then the floor of the elapsed minutes (under 60
  minutes), hours (under 24 hours) or days, followed by "m ago", "h ago" or "d ago".
\<close>

theorem formatRelativeTime_total:
  "formatRelativeTime getTime now iso_text =
     (case iso_text of
        None \<Rightarrow> js ''never''
      | Some s \<Rightarrow>
          (if s = [] then js ''never''
           else (case getTime s of
                   None \<Rightarrow> js ''unknown''
                 | Some t \<Rightarrow> relative_time_described (now - t))))"
  by (simp add: formatRelativeTime_def relative_time_described_def truthy_opt_def truthy_def
      Let_def floor_minutes_hours floor_hours_days minutes_lt_one minutes_lt_sixty hours_lt_day
      split: option.splits)

text \<open>
  C10 as stated fails at the empty string: it does not parse to a valid date (here the
  parser that accepts nothing, which agrees with JavaScript on the empty string), yet the
  result is "never", not "unknown".
\<close>

theorem formatRelativeTime_empty_string_counterexample:
  "Map.empty ([] :: js_string) = (None :: int option) \<and>
   formatRelativeTime Map.empty 0 (Some []) = js ''never'' \<and>
   formatRelativeTime Map.empty 0 (Some []) \<noteq> js ''unknown''"
  by (simp add: formatRelativeTime_def truthy_opt_def truthy_def js_def)

section \<open>Properties of triggerCmsBlogPostTest\<close>

text \<open>
  C9, as amended. When fetch resolves with a response that is not ok and whose body text
  can be read, the function throws an Error whose message is the body text when that text
  is non-empty and the fixed fallback otherwise. When the response is ok, the result is
  that of \<open>response.json()\<close>: the parsed body when the body is JSON text, and the
  parser's rejection otherwise. A rejection of fetch or of a body read is passed on.
\<close>

theorem triggerCmsBlogPostTest_outcome:
  "triggerCmsBlogPostTest fetch uid =
     (case fetch (cms_test_request uid) of
        Rejected e \<Rightarrow> Inl e
      | Resolved r \<Rightarrow>
          (if resp_ok r then resp_json r
           else (case resp_text r of
                   Inl e \<Rightarrow> Inl e
                 | Inr detail \<Rightarrow>
                     Inl (JsError (if detail = [] then cms_fallback_message else detail)))))"
  by (simp add: triggerCmsBlogPostTest_def truthy_def split: fetch_result.splits sum.splits)

text \<open>
  C9 as stated fails for an ok response whose body is not JSON text: the response is ok,
  nothing is returned, and an error is thrown.
\<close>

theorem triggerCmsBlogPostTest_ok_counterexample:
  "no_content_server (cms_test_request (js ''user_1'')) =
     Resolved \<lparr> resp_ok = True, resp_text = Inr [], resp_json = Inl SyntaxError \<rparr> \<and>
   triggerCmsBlogPostTest no_content_server (js ''user_1'') = Inl SyntaxError"
  by (simp add: triggerCmsBlogPostTest_def no_content_server_def)

section \<open>Properties of the inbox query\<close>

lemma trim_white_space:
  assumes "\<forall>c\<in>set t. is_white_space c"
  shows "trim t = []"
proof -
  have d: "dropWhile is_white_space t = []"
    using assms by simp
  show ?thesis unfolding trim_def d by simp
qed

lemma base_params_no_query:
  "map_of [(js ''user_id'', uid), (js ''status'', st), (js ''limit'', js ''50'')] (js ''query'') = None"
  by (simp add: js_def)

text \<open>
  C7. When the search term consists only of white space (or is empty), the query sent once
  the debounce timer has run is the query sent for no search term at all, and it has no
  \<open>query\<close> parameter.
\<close>

theorem whitespace_search_is_absent:
  assumes "\<forall>c\<in>set t. is_white_space c"
  shows "inbox_messages_query (debounce_elapsed (type_search t s)) =
           inbox_messages_query (debounce_elapsed (type_search [] s)) \<and>
         (\<forall>ps. inbox_messages_query (debounce_elapsed (type_search t s)) = Some ps \<longrightarrow>
               map_of ps (js ''query'') = None)"
proof -
  have d: "debouncedSearch (debounce_elapsed (type_search t s)) = []"
    using assms by (simp add: debounce_elapsed_def type_search_def trim_white_space)
  have e: "debouncedSearch (debounce_elapsed (type_search [] s)) = []"
    by (simp add: debounce_elapsed_def type_search_def trim_def)
  show ?thesis
    using d e base_params_no_query
    by (auto simp add: inbox_messages_query_def inbox_messages_params_def truthy_def
        debounce_elapsed_def type_search_def Let_def)
qed

theorem whitespace_search_is_absent_witness:
  "list_all is_white_space [0x20, 0x9, 0x3000] \<and>
   inbox_messages_query
     (debounce_elapsed (type_search [0x20, 0x9, 0x3000]
        ((initial_home (Some (js ''user_1'')))\<lparr> showInbox := True \<rparr>))) =
     Some [(js ''user_id'', js ''user_1''), (js ''status'', js ''new''), (js ''limit'', js ''50'')]"
proof -
  have h: "\<forall>c\<in>set [0x20, 0x9, 0x3000 :: 16 word]. is_white_space c"
    by (simp add: is_white_space_def)
  show ?thesis
    using h whitespace_search_is_absent
      [OF h, of "(initial_home (Some (js ''user_1'')))\<lparr> showInbox := True \<rparr>"]
    by (simp add: list_all_iff inbox_messages_query_def inbox_messages_params_def truthy_def truthy_opt_def
        debounce_elapsed_def type_search_def Let_def initial_home_def trim_def filter_name_def
        js_def)
qed

text \<open>For contrast: a term with anything else in it is sent, trimmed, as \<open>query\<close>.\<close>

lemma nonblank_search_sets_query:
  assumes "trim t \<noteq> []" "showInbox s" "truthy_opt (userId s)"
  shows "\<exists>ps. inbox_messages_query (debounce_elapsed (type_search t s)) = Some ps \<and>
              map_of ps (js ''query'') = Some (trim t)"
  using assms
  by (simp add: inbox_messages_query_def inbox_messages_params_def truthy_def
        debounce_elapsed_def type_search_def Let_def params_set_def js_def)

section \<open>Properties of the selected message\<close>

lemma find_Some_member: "find P xs = Some x \<Longrightarrow> x \<in> set xs \<and> P x"
  by (induction xs) (auto split: if_splits)

lemma find_None_iff_no_member: "(find P xs = None) = (\<not> (\<exists>x\<in>set xs. P x))"
  by (induction xs) auto

text \<open>
  C8, as amended. After a load that was not superseded completes, the list shown is the
  loaded list (empty after a failure); the selected message is null exactly when the load
  failed or the loaded list is empty, and is otherwise an element of the loaded list: the
  loaded message with the id of the previously selected one if there is one, and the first
  message of the list if not. A superseded load changes nothing, so after every load, and
  after every click on a message, the selection is consistent with the list shown.
\<close>

theorem selected_message_after_load:
  "messages (complete_load True outcome s) = loaded_list outcome \<and>
   ((selectedMessage (complete_load True outcome s) = None) =
      (outcome = LoadFailed \<or> outcome = Loaded [])) \<and>
   (\<forall>m. selectedMessage (complete_load True outcome s) = Some m \<longrightarrow>
        m \<in> set (loaded_list outcome)) \<and>
   (\<forall>payload p. outcome = Loaded payload \<and> selectedMessage s = Some p \<and>
        (\<exists>m\<in>set payload. im_id m = im_id p) \<longrightarrow>
      (\<exists>m\<in>set payload. im_id m = im_id p \<and>
         selectedMessage (complete_load True outcome s) = Some m)) \<and>
   (\<forall>payload. outcome = Loaded payload \<and> payload \<noteq> [] \<and>
        (\<forall>p. selectedMessage s = Some p \<longrightarrow> \<not> (\<exists>m\<in>set payload. im_id m = im_id p)) \<longrightarrow>
      selectedMessage (complete_load True outcome s) = Some (hd payload)) \<and>
   complete_load False outcome s = s \<and>
   (selection_consistent s \<longrightarrow>
      selection_consistent (complete_load active outcome s) \<and>
      selection_consistent (click_message i s))"
proof -
  have main:
    "messages (complete_load True outcome s) = loaded_list outcome \<and>
     ((selectedMessage (complete_load True outcome s) = None) =
        (outcome = LoadFailed \<or> outcome = Loaded [])) \<and>
     (\<forall>m. selectedMessage (complete_load True outcome s) = Some m \<longrightarrow>
          m \<in> set (loaded_list outcome)) \<and>
     (\<forall>payload p. outcome = Loaded payload \<and> selectedMessage s = Some p \<and>
          (\<exists>m\<in>set payload. im_id m = im_id p) \<longrightarrow>
        (\<exists>m\<in>set payload. im_id m = im_id p \<and>
           selectedMessage (complete_load True outcome s) = Some m)) \<and>
     (\<forall>payload. outcome = Loaded payload \<and> payload \<noteq> [] \<and>
          (\<forall>p. selectedMessage s = Some p \<longrightarrow> \<not> (\<exists>m\<in>set payload. im_id m = im_id p)) \<longrightarrow>
        selectedMessage (complete_load True outcome s) = Some (hd payload))"
    apply (cases outcome)
     apply (simp add: complete_load_def on_messages_settled_def on_messages_failed_def
        loaded_list_def)
    apply (auto simp add: complete_load_def on_messages_settled_def on_messages_loaded_def
        loaded_list_def select_after_load_def find_None_iff_no_member
        split: list.splits option.splits dest: find_Some_member)
    done
  have inactive: "complete_load False outcome s = s"
    by (cases outcome)
      (simp_all add: complete_load_def on_messages_settled_def on_messages_failed_def
        on_messages_loaded_def)
  have active_ok: "selection_consistent (complete_load True outcome s)"
  proof (cases "selectedMessage (complete_load True outcome s)")
    case None
    then have "outcome = LoadFailed \<or> outcome = Loaded []" using main by simp
    then have "loaded_list outcome = []" by (auto simp add: loaded_list_def)
    then show ?thesis using None main by (simp add: selection_consistent_def)
  next
    case (Some m)
    then have "m \<in> set (loaded_list outcome)" using main by simp
    then show ?thesis using Some main by (simp add: selection_consistent_def)
  qed
  have load_ok: "selection_consistent s \<Longrightarrow> selection_consistent (complete_load active outcome s)"
    using active_ok inactive by (cases active) simp_all
  have click_ok: "selection_consistent s \<Longrightarrow> selection_consistent (click_message i s)"
    by (simp add: selection_consistent_def click_message_def)
  show ?thesis using main inactive load_ok click_ok by simp
qed

theorem selected_message_after_load_witness:
  "selection_consistent
     ((initial_home (Some (js ''user_1'')))
        \<lparr> messages := [example_message (js ''m1'') (js ''stale'')],
          selectedMessage := Some (example_message (js ''m1'') (js ''stale'')) \<rparr>) \<and>
   selectedMessage
     (complete_load True
        (Loaded [example_message (js ''m0'') (js ''first''), example_message (js ''m1'') (js ''fresh'')])
        ((initial_home (Some (js ''user_1'')))
           \<lparr> messages := [example_message (js ''m1'') (js ''stale'')],
             selectedMessage := Some (example_message (js ''m1'') (js ''stale'')) \<rparr>)) =
     Some (example_message (js ''m1'') (js ''fresh'')) \<and>
   selectedMessage
     (complete_load True
        (Loaded [example_message (js ''m0'') (js ''first''), example_message (js ''m1'') (js ''fresh'')])
        ((initial_home (Some (js ''user_1'')))
           \<lparr> messages := [example_message (js ''m7'') (js ''gone'')],
             selectedMessage := Some (example_message (js ''m7'') (js ''gone'')) \<rparr>)) =
     Some (example_message (js ''m0'') (js ''first''))"
  using selected_message_after_load
      [of "Loaded [example_message (js ''m0'') (js ''first''), example_message (js ''m1'') (js ''fresh'')]"
          "(initial_home (Some (js ''user_1'')))
             \<lparr> messages := [example_message (js ''m1'') (js ''stale'')],
               selectedMessage := Some (example_message (js ''m1'') (js ''stale'')) \<rparr>"]
  by (simp add: complete_load_def on_messages_settled_def on_messages_loaded_def
      select_after_load_def example_message_def initial_home_def js_def selection_consistent_def)

text \<open>
  C8 as stated fails for a load that was superseded (its effect was cleaned up before the
  response arrived): the handlers return at \<open>if (!active)\<close>, so a load that completes
  with a message leaves the list empty and the selection null, although the load did not
  fail and its list is not empty.
\<close>

theorem superseded_load_counterexample:
  "selectedMessage
     (complete_load False (Loaded [example_message (js ''m0'') (js ''first'')])
        (initial_home (Some (js ''user_1'')))) = None \<and>
   messages
     (complete_load False (Loaded [example_message (js ''m0'') (js ''first'')])
        (initial_home (Some (js ''user_1'')))) = [] \<and>
   loaded_list (Loaded [example_message (js ''m0'') (js ''first'')]) \<noteq> [] \<and>
   Loaded [example_message (js ''m0'') (js ''first'')] \<noteq> LoadFailed"
  by (simp add: complete_load_def on_messages_settled_def on_messages_loaded_def
      initial_home_def loaded_list_def)

section \<open>Properties of the automatic sync\<close>

lemma commit_quiet:
  "autoSynced (ui p) \<Longrightarrow> userId q = userId (ui p) \<Longrightarrow> commit (Some q) p = p"
  by (simp add: commit_def Let_def)

lemma settle_same_user:
  assumes "userId q = userId (ui p)"
  shows "settle (Some q) p =
     (if auto_sync_deps_changed q (ui p) \<and> both_connected (ui p) \<and>
         truthy_opt (userId (ui p)) \<and> \<not> autoSynced (ui p)
      then fire_auto p else p)"
proof (cases "auto_sync_deps_changed q (ui p) \<and> both_connected (ui p) \<and>
         truthy_opt (userId (ui p)) \<and> \<not> autoSynced (ui p)")
  case False
  then have "commit (Some q) p = p"
    using assms by (auto simp add: commit_def Let_def both_connected_def)
  then show ?thesis using False by (subst settle.simps) (auto simp add: Let_def)
next
  case True
  then have c: "commit (Some q) p = fire_auto p"
    using assms by (simp add: commit_def Let_def both_connected_def fire_auto_def)
  have a: "autoSynced (ui (fire_auto p))" and u: "userId (ui (fire_auto p)) = userId (ui p)"
    using True by (simp_all add: fire_auto_def triggerSync_def)
  have ne: "ui (fire_auto p) \<noteq> ui p" using a True by metis
  have "settle (Some (ui p)) (fire_auto p) = fire_auto p"
    using commit_quiet [OF a, of "ui p"] u by (subst settle.simps) (simp add: Let_def)
  then show ?thesis using True c ne by (subst settle.simps) (simp add: Let_def)
qed


lemma settle_user_changed:
  assumes "userId q \<noteq> userId (ui p)"
  shows "settle (Some q) p =
     (if both_connected (ui p) \<and> truthy_opt (userId (ui p))
      then fire_auto (p\<lparr> ui := (ui p)\<lparr> autoSynced := False \<rparr> \<rparr>)
      else p\<lparr> ui := (ui p)\<lparr> autoSynced := False \<rparr> \<rparr>)"
proof (cases "autoSynced (ui p)")
  case False
  have dc: "auto_sync_deps_changed q (ui p)"
    using assms by (simp add: auto_sync_deps_changed_def)
  have same: "p\<lparr> ui := (ui p)\<lparr> autoSynced := False \<rparr> \<rparr> = p"
    using False by simp
  show ?thesis
  proof (cases "both_connected (ui p) \<and> truthy_opt (userId (ui p))")
    case True
    have c: "commit (Some q) p = fire_auto p"
      using assms True False dc by (simp add: commit_def Let_def both_connected_def fire_auto_def)
    have a: "autoSynced (ui (fire_auto p))" and u: "userId (ui (fire_auto p)) = userId (ui p)"
      using True by (simp_all add: fire_auto_def triggerSync_def)
    have ne: "ui (fire_auto p) \<noteq> ui p" using a False by metis
    have "settle (Some (ui p)) (fire_auto p) = fire_auto p"
      using commit_quiet [OF a, of "ui p"] u by (subst settle.simps) (simp add: Let_def)
    then show ?thesis using True c ne by (subst settle.simps) (simp add: Let_def same)
  next
    case nb: False
    have c: "commit (Some q) p = p"
      using assms nb False by (auto simp add: commit_def Let_def both_connected_def same)
    show ?thesis using nb c by (subst settle.simps) (auto simp add: Let_def same)
  qed
next
  case True
  define p1 where "p1 = p\<lparr> ui := (ui p)\<lparr> autoSynced := False \<rparr> \<rparr>"
  have c: "commit (Some q) p = p1"
    using assms True by (simp add: commit_def Let_def p1_def)
  have "autoSynced (ui p1) \<noteq> autoSynced (ui p)"
    using True by (simp add: p1_def)
  then have ne: "ui p1 \<noteq> ui p" by metis
  have u1: "userId (ui p) = userId (ui p1)" by (simp add: p1_def)
  have s1: "settle (Some (ui p)) p1 =
     (if auto_sync_deps_changed (ui p) (ui p1) \<and> both_connected (ui p1) \<and>
         truthy_opt (userId (ui p1)) \<and> \<not> autoSynced (ui p1)
      then fire_auto p1 else p1)"
    by (rule settle_same_user [OF u1])
  have dc: "auto_sync_deps_changed (ui p) (ui p1)"
    using True by (simp add: auto_sync_deps_changed_def p1_def)
  have "settle (Some q) p = settle (Some (ui p)) p1"
    using c ne by (subst settle.simps) (simp add: Let_def)
  then show ?thesis
    using s1 dc by (simp add: p1_def both_connected_def)
qed

lemma mount_state:
  "mount u = \<lparr> ui = initial_home u, in_flight = [], started = [] \<rparr>"
proof -
  have "commit None \<lparr> ui = initial_home u, in_flight = [], started = [] \<rparr> =
        \<lparr> ui = initial_home u, in_flight = [], started = [] \<rparr>"
    by (simp add: commit_def Let_def initial_home_def)
  then show ?thesis
    unfolding mount_def by (subst settle.simps) (simp add: Let_def)
qed


lemmas handle_defs = triggerSync_def sync_responded_def sync_finished_def
  gmail_status_arrived_def hubspot_status_arrived_def

lemma handle_keeps_user:
  "\<not> is_user_event e \<Longrightarrow> userId (ui (handle e p)) = userId (ui p)"
  by (cases e) (simp_all add: is_user_event_def handle_defs split: option.splits sync_response.splits)

lemma handle_keeps_autoSynced:
  "autoSynced (ui (handle e p)) = autoSynced (ui p)"
  by (cases e) (simp_all add: handle_defs split: option.splits sync_response.splits)

lemma handle_keeps_auto_calls:
  "auto_calls (handle e p) = auto_calls p"
  by (cases e)
    (simp_all add: auto_calls_def handle_defs new_sync_call_def
      split: option.splits sync_response.splits)

lemma fire_auto_facts:
  assumes "truthy_opt (userId (ui p))"
  shows "autoSynced (ui (fire_auto p))"
    and "userId (ui (fire_auto p)) = userId (ui p)"
    and "gmailState (ui (fire_auto p)) = gmailState (ui p)"
    and "hubspotState (ui (fire_auto p)) = hubspotState (ui p)"
    and "auto_calls (fire_auto p) =
           auto_calls p @ [new_sync_call (the (userId (ui p))) Automatic False]"
  using assms
  by (simp_all add: fire_auto_def triggerSync_def auto_calls_def new_sync_call_def)

lemma dispatch_same_user:
  assumes e: "\<not> is_user_event e" and st: "settled p"
  shows "userId (ui (dispatch e p)) = userId (ui p)"
    and "settled (dispatch e p)"
    and "autoSynced (ui (dispatch e p)) =
           (autoSynced (ui p) \<or>
            (both_connected (ui (dispatch e p)) \<and> truthy_opt (userId (ui p))))"
    and "auto_calls (dispatch e p) =
           auto_calls p @
           (if \<not> autoSynced (ui p) \<and> both_connected (ui (dispatch e p)) \<and>
               truthy_opt (userId (ui p))
            then [new_sync_call (the (userId (ui p))) Automatic False] else [])"
proof -
  let ?h = "handle e p"
  have u: "userId (ui p) = userId (ui ?h)" using e by (simp add: handle_keeps_user)
  have a: "autoSynced (ui ?h) = autoSynced (ui p)" by (rule handle_keeps_autoSynced)
  have c: "auto_calls ?h = auto_calls p" by (rule handle_keeps_auto_calls)
  have d: "dispatch e p =
     (if auto_sync_deps_changed (ui p) (ui ?h) \<and> both_connected (ui ?h) \<and>
         truthy_opt (userId (ui ?h)) \<and> \<not> autoSynced (ui ?h)
      then fire_auto ?h else ?h)"
    unfolding dispatch_def by (rule settle_same_user [OF u])
  show "userId (ui (dispatch e p)) = userId (ui p)"
    using d u by (simp add: fire_auto_facts)
  have quiet: "both_connected (ui ?h) \<and> truthy_opt (userId (ui ?h)) \<and> \<not> autoSynced (ui ?h)
      \<Longrightarrow> auto_sync_deps_changed (ui p) (ui ?h)"
    using st u a by (auto simp add: settled_def both_connected_def auto_sync_deps_changed_def)
  show "settled (dispatch e p)"
    using d quiet by (auto simp add: settled_def fire_auto_facts)
  show "autoSynced (ui (dispatch e p)) =
           (autoSynced (ui p) \<or>
            (both_connected (ui (dispatch e p)) \<and> truthy_opt (userId (ui p))))"
    using d quiet u a st
    by (auto simp add: fire_auto_facts both_connected_def settled_def)
  show "auto_calls (dispatch e p) =
           auto_calls p @
           (if \<not> autoSynced (ui p) \<and> both_connected (ui (dispatch e p)) \<and>
               truthy_opt (userId (ui p))
            then [new_sync_call (the (userId (ui p))) Automatic False] else [])"
    using d quiet u a c st
    by (auto simp add: fire_auto_facts both_connected_def settled_def)
qed

lemma ever_both_connected_now:
  "both_connected (ui p) \<Longrightarrow> ever_both_connected es p"
  by (cases es) simp_all

lemma auto_calls_same_user:
  assumes "settled p" and "truthy_opt (userId (ui p))" and "\<forall>e\<in>set evs. \<not> is_user_event e"
  shows "auto_calls (run evs p) =
           auto_calls p @
           (if \<not> autoSynced (ui p) \<and> ever_both_connected evs p
            then [new_sync_call (the (userId (ui p))) Automatic False] else [])"
  using assms
proof (induction evs arbitrary: p)
  case Nil
  then show ?case by (auto simp add: settled_def)
next
  case (Cons e es)
  have e: "\<not> is_user_event e" and es: "\<forall>e\<in>set es. \<not> is_user_event e"
    using Cons.prems(3) by simp_all
  note d = dispatch_same_user [OF e Cons.prems(1)]
  have t: "truthy_opt (userId (ui (dispatch e p)))"
    using d(1) Cons.prems(2) by simp
  have ih: "auto_calls (run es (dispatch e p)) =
           auto_calls (dispatch e p) @
           (if \<not> autoSynced (ui (dispatch e p)) \<and> ever_both_connected es (dispatch e p)
            then [new_sync_call (the (userId (ui (dispatch e p)))) Automatic False] else [])"
    by (rule Cons.IH [OF d(2) t es])
  have nb: "\<not> autoSynced (ui p) \<Longrightarrow> \<not> both_connected (ui p)"
    using Cons.prems(1,2) by (auto simp add: settled_def)
  show ?case
  proof (cases "autoSynced (ui p)")
    case True
    then show ?thesis using ih d by simp
  next
    case False
    show ?thesis
    proof (cases "both_connected (ui (dispatch e p))")
      case True
      then show ?thesis
        using ih d False Cons.prems(2) by (simp add: ever_both_connected_now)
    next
      case nc: False
      then show ?thesis
        using ih d False nb Cons.prems(2) by simp
    qed
  qed
qed


lemmas eval_defs = dispatch_def settle_same_user mount_state handle_defs fire_auto_def
  auto_sync_deps_changed_def both_connected_def initial_home_def default_gmail_status_def
  truthy_opt_def truthy_def new_sync_call_def next_disabled_def sync_again_disabled_def
  canProceed_def baselineReady_def ready_gmail_status_def connected_hubspot_status_def
  drop_at_def auto_calls_def manual_calls_def is_user_event_def

lemma autoSynced_kept:
  assumes "\<forall>e\<in>set evs. \<not> is_user_event e" and "autoSynced (ui p)"
  shows "autoSynced (ui (run evs p))"
  using assms
proof (induction evs arbitrary: p)
  case Nil
  then show ?case by simp
next
  case (Cons e es)
  have e: "\<not> is_user_event e" using Cons.prems(1) by simp
  have u: "userId (ui p) = userId (ui (handle e p))" using e by (simp add: handle_keeps_user)
  have "autoSynced (ui (handle e p))"
    using Cons.prems(2) by (simp add: handle_keeps_autoSynced)
  then have "autoSynced (ui (dispatch e p))"
    unfolding dispatch_def settle_same_user [OF u] by simp
  then show ?case using Cons by simp
qed

lemma dispatch_user_changed:
  assumes "userId (ui p) \<noteq> Some u" and "truthy u"
  shows "settled (dispatch (UserChanged (Some u)) p)"
    and "userId (ui (dispatch (UserChanged (Some u)) p)) = Some u"
    and "autoSynced (ui (dispatch (UserChanged (Some u)) p)) =
           both_connected (ui (dispatch (UserChanged (Some u)) p))"
    and "auto_calls (dispatch (UserChanged (Some u)) p) =
           auto_calls p @
           (if both_connected (ui (dispatch (UserChanged (Some u)) p))
            then [new_sync_call u Automatic False] else [])"
proof -
  let ?h = "handle (UserChanged (Some u)) p"
  have ne: "userId (ui p) \<noteq> userId (ui ?h)" using assms(1) by simp
  have t: "truthy_opt (userId (ui ?h))" using assms(2) by (simp add: truthy_opt_def)
  have d: "dispatch (UserChanged (Some u)) p =
     (if both_connected (ui ?h)
      then fire_auto (?h\<lparr> ui := (ui ?h)\<lparr> autoSynced := False \<rparr> \<rparr>)
      else ?h\<lparr> ui := (ui ?h)\<lparr> autoSynced := False \<rparr> \<rparr>)"
    unfolding dispatch_def settle_user_changed [OF ne] using t by simp
  have t': "truthy_opt (userId (ui (?h\<lparr> ui := (ui ?h)\<lparr> autoSynced := False \<rparr> \<rparr>)))"
    using t by simp
  note f = fire_auto_facts [OF t']
  show "settled (dispatch (UserChanged (Some u)) p)"
    using d f by (auto simp add: settled_def both_connected_def)
  show "userId (ui (dispatch (UserChanged (Some u)) p)) = Some u"
    using d f by simp
  show "autoSynced (ui (dispatch (UserChanged (Some u)) p)) =
           both_connected (ui (dispatch (UserChanged (Some u)) p))"
    using d f by (auto simp add: both_connected_def)
  show "auto_calls (dispatch (UserChanged (Some u)) p) =
           auto_calls p @
           (if both_connected (ui (dispatch (UserChanged (Some u)) p))
            then [new_sync_call u Automatic False] else [])"
    using d f by (auto simp add: both_connected_def auto_calls_def)
qed

lemma mount_settled: "settled (mount u)"
  by (simp add: mount_state settled_def both_connected_def initial_home_def)

text \<open>
  \<open>ever_both_connected\<close> says that both connections are connected after some prefix
  of the events (the empty one included).
\<close>

lemma ever_both_connected_prefix:
  "ever_both_connected evs p =
     (\<exists>n\<le>length evs. both_connected (ui (run (take n evs) p)))"
proof (induction evs arbitrary: p)
  case Nil
  then show ?case by simp
next
  case (Cons e es)
  have "(\<exists>n\<le>length (e # es). both_connected (ui (run (take n (e # es)) p))) =
        (both_connected (ui p) \<or>
         (\<exists>m\<le>length es. both_connected (ui (run (take m es) (dispatch e p)))))"
  proof
    assume "\<exists>n\<le>length (e # es). both_connected (ui (run (take n (e # es)) p))"
    then obtain n where n: "n \<le> length (e # es)"
      and b: "both_connected (ui (run (take n (e # es)) p))" by blast
    show "both_connected (ui p) \<or>
         (\<exists>m\<le>length es. both_connected (ui (run (take m es) (dispatch e p))))"
    proof (cases n)
      case 0
      then show ?thesis using b by simp
    next
      case (Suc m)
      then show ?thesis using n b by auto
    qed
  next
    assume "both_connected (ui p) \<or>
         (\<exists>m\<le>length es. both_connected (ui (run (take m es) (dispatch e p))))"
    then show "\<exists>n\<le>length (e # es). both_connected (ui (run (take n (e # es)) p))"
    proof
      assume "both_connected (ui p)"
      then have "0 \<le> length (e # es) \<and> both_connected (ui (run (take 0 (e # es)) p))" by simp
      then show ?thesis by blast
    next
      assume "\<exists>m\<le>length es. both_connected (ui (run (take m es) (dispatch e p)))"
      then obtain m where "m \<le> length es"
        and "both_connected (ui (run (take m es) (dispatch e p)))" by blast
      then have "Suc m \<le> length (e # es) \<and>
          both_connected (ui (run (take (Suc m) (e # es)) p))" by simp
      then show ?thesis by blast
    qed
  qed
  then show ?case using Cons.IH [of "dispatch e p"] by simp
qed

text \<open>
  C4. In a session of one signed-in user (no change of the user), whether it starts when
  the page is mounted or when the user changes, the automatic trigger starts exactly one
  sync if both connections are ever in the connected state together, and none otherwise;
  once fired, \<open>autoSynced\<close> stays set until the user changes. Since this holds for every
  sequence of events, the sync is started by the first event after which both connections
  are connected.
\<close>

theorem auto_sync_once_per_session:
  assumes "truthy u" and "\<forall>e\<in>set evs. \<not> is_user_event e"
  shows "auto_calls (run evs (mount (Some u))) =
           (if ever_both_connected evs (mount (Some u))
            then [new_sync_call u Automatic False] else []) \<and>
         (\<forall>p. userId (ui p) \<noteq> Some u \<longrightarrow>
            auto_calls (run evs (dispatch (UserChanged (Some u)) p)) =
              auto_calls p @
              (if ever_both_connected evs (dispatch (UserChanged (Some u)) p)
               then [new_sync_call u Automatic False] else [])) \<and>
         (\<forall>p. autoSynced (ui p) \<longrightarrow> autoSynced (ui (run evs p)))"
proof (intro conjI allI impI)
  have m: "truthy_opt (userId (ui (mount (Some u))))"
    using assms(1) by (simp add: mount_state initial_home_def truthy_opt_def)
  show "auto_calls (run evs (mount (Some u))) =
           (if ever_both_connected evs (mount (Some u))
            then [new_sync_call u Automatic False] else [])"
    using auto_calls_same_user [OF mount_settled m assms(2)]
    by (simp add: mount_state initial_home_def auto_calls_def)
next
  fix p :: page
  assume ne: "userId (ui p) \<noteq> Some u"
  let ?q = "dispatch (UserChanged (Some u)) p"
  note d = dispatch_user_changed [OF ne assms(1)]
  have t: "truthy_opt (userId (ui ?q))"
    using d(2) assms(1) by (simp add: truthy_opt_def)
  show "auto_calls (run evs ?q) =
          auto_calls p @
          (if ever_both_connected evs ?q then [new_sync_call u Automatic False] else [])"
    using auto_calls_same_user [OF d(1) t assms(2)] d(2,3,4)
    by (auto simp add: ever_both_connected_now)
next
  fix p :: page
  assume "autoSynced (ui p)"
  then show "autoSynced (ui (run evs p))"
    using assms(2) by (rule autoSynced_kept [rotated])
qed

theorem auto_sync_once_per_session_witness:
  "truthy (js ''user_1'') \<and>
   list_all (\<lambda>e. \<not> is_user_event e) connect_then_sync_again \<and>
   ever_both_connected connect_then_sync_again (mount (Some (js ''user_1''))) \<and>
   auto_calls (run connect_then_sync_again (mount (Some (js ''user_1'')))) =
     [new_sync_call (js ''user_1'') Automatic False] \<and>
   length (started (run connect_then_sync_again (mount (Some (js ''user_1''))))) = 2"
proof -
  have t: "truthy (js ''user_1'')" by (simp add: truthy_def js_def)
  have n: "\<forall>e\<in>set connect_then_sync_again. \<not> is_user_event e"
    by (simp add: connect_then_sync_again_def is_user_event_def)
  have b: "ever_both_connected connect_then_sync_again (mount (Some (js ''user_1'')))"
    by (simp add: connect_then_sync_again_def eval_defs js_def)
  have l: "length (started (run connect_then_sync_again (mount (Some (js ''user_1''))))) = 2"
    by (simp add: connect_then_sync_again_def eval_defs js_def)
  show ?thesis
    using auto_sync_once_per_session [OF t n] t b l
    by (simp add: connect_then_sync_again_def is_user_event_def)
qed

section \<open>Properties of the manual sync buttons\<close>

lemma handle_consistent:
  "status_consistent (ui p) \<Longrightarrow> status_consistent (ui (handle e p))"
  by (cases e)
    (auto simp add: status_consistent_def handle_defs split: option.splits sync_response.splits)

lemma settle_frame:
  "gmailState (ui (settle (Some q) p)) = gmailState (ui p) \<and>
   gmailStatus (ui (settle (Some q) p)) = gmailStatus (ui p) \<and>
   manual_calls (settle (Some q) p) = manual_calls p"
proof (cases "userId q = userId (ui p)")
  case True
  show ?thesis
    unfolding settle_same_user [OF True]
    by (simp add: fire_auto_def triggerSync_def manual_calls_def new_sync_call_def)
next
  case False
  show ?thesis
    unfolding settle_user_changed [OF False]
    by (simp add: fire_auto_def triggerSync_def manual_calls_def new_sync_call_def)
qed

lemma dispatch_consistent:
  "status_consistent (ui p) \<Longrightarrow> status_consistent (ui (dispatch e p))"
  using handle_consistent [of p e] settle_frame [of "ui p" "handle e p"]
  by (simp add: dispatch_def status_consistent_def)

lemma run_consistent:
  "status_consistent (ui p) \<Longrightarrow> status_consistent (ui (run evs p))"
  by (induction evs arbitrary: p) (simp_all add: dispatch_consistent)

lemma manual_call_needs_enabled_button:
  assumes "manual_calls (handle e p) \<noteq> manual_calls p"
  shows "(e = ClickNext \<and> \<not> next_disabled (ui p)) \<or>
         (e = ClickSyncAgain \<and> \<not> sync_again_disabled (ui p))"
  using assms
  by (cases e)
    (auto simp add: manual_calls_def handle_defs split: option.splits sync_response.splits if_splits)

text \<open>
  What the two buttons do guarantee: both are disabled whenever \<open>baseline_ready\<close> is
  not true or the flag \<open>isSyncing\<close> is set; and in every state the page can reach, an
  event starts a manual sync only if it is a click on one of the two buttons while the Gmail
  status is connected, \<open>baseline_ready\<close> is true and \<open>isSyncing\<close> is not set.
\<close>

lemma manual_sync_gated:
  "((\<not> baselineReady s \<or> isSyncing s) \<longrightarrow> next_disabled s \<and> sync_again_disabled s) \<and>
   (manual_calls (dispatch e (run evs (mount u))) \<noteq> manual_calls (run evs (mount u)) \<longrightarrow>
      (e = ClickNext \<or> e = ClickSyncAgain) \<and>
      gs_connected (gmailStatus (ui (run evs (mount u)))) \<and>
      baselineReady (ui (run evs (mount u))) \<and>
      \<not> isSyncing (ui (run evs (mount u))))"
proof (intro conjI impI)
  assume "\<not> baselineReady s \<or> isSyncing s"
  then show "next_disabled s" by (auto simp add: next_disabled_def canProceed_def)
next
  assume "\<not> baselineReady s \<or> isSyncing s"
  then show "sync_again_disabled s" by (auto simp add: sync_again_disabled_def)
next
  let ?p = "run evs (mount u)"
  assume "manual_calls (dispatch e ?p) \<noteq> manual_calls ?p"
  then have "manual_calls (handle e ?p) \<noteq> manual_calls ?p"
    using settle_frame [of "ui ?p" "handle e ?p"] by (simp add: dispatch_def)
  then have en: "(e = ClickNext \<and> \<not> next_disabled (ui ?p)) \<or>
         (e = ClickSyncAgain \<and> \<not> sync_again_disabled (ui ?p))"
    by (rule manual_call_needs_enabled_button)
  have "status_consistent (ui (mount u))"
    by (simp add: mount_state status_consistent_def initial_home_def)
  then have sc: "status_consistent (ui ?p)" by (rule run_consistent)
  show "e = ClickNext \<or> e = ClickSyncAgain" using en by blast
  show "gs_connected (gmailStatus (ui ?p))"
    using en sc
    by (auto simp add: next_disabled_def sync_again_disabled_def canProceed_def
        status_consistent_def)
  show "baselineReady (ui ?p)"
    using en by (auto simp add: next_disabled_def sync_again_disabled_def canProceed_def)
  show "\<not> isSyncing (ui ?p)"
    using en by (auto simp add: next_disabled_def sync_again_disabled_def)
qed

lemma manual_sync_gated_witness:
  "next_disabled (initial_home (Some (js ''user_1''))) \<and>
   sync_again_disabled (initial_home (Some (js ''user_1''))) \<and>
   manual_calls (dispatch ClickSyncAgain
      (run [GmailStatusArrived (Some ready_gmail_status)] (mount (Some (js ''user_1''))))) =
     [new_sync_call (js ''user_1'') SyncAgainButton False] \<and>
   manual_calls (run [GmailStatusArrived (Some ready_gmail_status)] (mount (Some (js ''user_1'')))) = [] \<and>
   baselineReady (ui (run [GmailStatusArrived (Some ready_gmail_status)] (mount (Some (js ''user_1'')))))"
  using manual_sync_gated [of "initial_home (Some (js ''user_1''))" ClickSyncAgain
      "[GmailStatusArrived (Some ready_gmail_status)]" "Some (js ''user_1'')"]
  by (simp add: eval_defs js_def)

text \<open>
  C5 as stated fails when a manual and the automatic sync overlap. \<open>isSyncing\<close> is one
  flag, set by every call of \<open>triggerSync\<close> and cleared in the finally block of each; the
  automatic trigger does not look at it. Gmail reports connected with its baseline ready,
  the user clicks "Sync again", HubSpot then reports connected and the automatic sync starts;
  when the manual sync returns, the automatic one is still in flight and both buttons are
  enabled.
\<close>

theorem manual_sync_overlap_counterexample:
  "in_flight (run overlapping_sync_trace (mount (Some (js ''user_1'')))) =
      [new_sync_call (js ''user_1'') Automatic False] \<and>
   \<not> next_disabled (ui (run overlapping_sync_trace (mount (Some (js ''user_1''))))) \<and>
   \<not> sync_again_disabled (ui (run overlapping_sync_trace (mount (Some (js ''user_1'')))))"
  by (simp add: overlapping_sync_trace_def eval_defs js_def)

text \<open>
  C5. The page after those events: two syncs were started, the manual one and then the
  automatic one; the automatic one has not returned; \<open>isSyncing\<close> is false while
  \<open>canProceed\<close>, \<open>gmailStatus.connected\<close> and \<open>baselineReady\<close> hold, which is
  what enables the two buttons; and a click on either starts a manual sync beside the
  automatic one that is in flight.
\<close>

theorem manual_sync_overlap:
  "map call_origin (started (run overlapping_sync_trace (mount (Some (js ''user_1''))))) =
      [SyncAgainButton, Automatic] \<and>
   in_flight (run overlapping_sync_trace (mount (Some (js ''user_1'')))) =
      [new_sync_call (js ''user_1'') Automatic False] \<and>
   isSyncing (ui (run overlapping_sync_trace (mount (Some (js ''user_1''))))) = False \<and>
   canProceed (ui (run overlapping_sync_trace (mount (Some (js ''user_1''))))) \<and>
   gs_connected (gmailStatus (ui (run overlapping_sync_trace (mount (Some (js ''user_1'')))))) \<and>
   baselineReady (ui (run overlapping_sync_trace (mount (Some (js ''user_1''))))) \<and>
   map call_origin
     (in_flight (run (overlapping_sync_trace @ [ClickSyncAgain]) (mount (Some (js ''user_1''))))) =
      [Automatic, SyncAgainButton] \<and>
   map call_origin
     (in_flight (run (overlapping_sync_trace @ [ClickNext]) (mount (Some (js ''user_1''))))) =
      [Automatic, NextButton]"
  by (simp add: overlapping_sync_trace_def eval_defs js_def)

section \<open>Properties of the store\<close>

lemma owner_of_map:
  assumes "\<And>c. conn_user_id (f c) = conn_user_id c"
  shows "owner_of (map f cs) uid = map_option f (owner_of cs uid)"
  using assms by (induction cs) (simp_all add: owner_of_def)

lemma owner_of_append:
  "owner_of (cs @ [c]) uid =
     (case owner_of cs uid of
        Some d \<Rightarrow> Some d
      | None \<Rightarrow> if conn_user_id c = uid then Some c else None)"
  by (induction cs) (simp_all add: owner_of_def)

lemma owner_of_filter:
  "v \<noteq> uid \<Longrightarrow> owner_of (filter (\<lambda>c. conn_user_id c \<noteq> uid) cs) v = owner_of cs v"
  by (induction cs) (auto simp add: owner_of_def)

lemma owner_of_filter_self:
  "owner_of (filter (\<lambda>c. conn_user_id c \<noteq> uid) cs) uid = None"
  by (induction cs) (auto simp add: owner_of_def)

lemma owner_of_user: "owner_of cs uid = Some c \<Longrightarrow> conn_user_id c = uid"
  unfolding owner_of_def by (induction cs) (auto split: if_splits)

lemma update_row_frame:
  "msg_user_id (update_row raw cls t m) = msg_user_id m"
  "msg_message_id (update_row raw cls t m) = msg_message_id m"
  "msg_received_at (update_row raw cls t m) = msg_received_at m"
  "msg_row_id (update_row raw cls t m) = msg_row_id m"
  by (simp_all add: update_row_def Let_def)

lemma update_row_key: "message_key (update_row raw cls t m) = message_key m"
  by (simp add: message_key_def update_row_frame)

lemma upsert_row_keys:
  "map message_key (upsert_row uid raw cls t ms) =
     (if (uid, raw_message_id raw) \<in> set (map message_key ms)
      then map message_key ms
      else map message_key ms @ [(uid, raw_message_id raw)])"
proof -
  have "map message_key (map (\<lambda>m. if message_key m = (uid, raw_message_id raw)
                     then update_row raw cls t m else m) ms) = map message_key ms"
    by (induction ms) (simp_all add: update_row_key)
  then show ?thesis
    by (simp add: upsert_row_def message_key_def insert_row_def default_row_def)
qed

lemma upsert_row_distinct:
  "distinct (map message_key ms) \<Longrightarrow> distinct (map message_key (upsert_row uid raw cls t ms))"
  by (simp add: upsert_row_keys)

lemma upsert_row_all:
  assumes "\<forall>m\<in>set ms. Q m"
    and "\<And>m. Q m \<Longrightarrow> Q (update_row raw cls t m)"
    and "Q (insert_row (fresh_row_id ms) uid raw cls t)"
  shows "\<forall>m\<in>set (upsert_row uid raw cls t ms). Q m"
  using assms by (auto simp add: upsert_row_def)

lemma ingest_all:
  assumes "\<forall>m\<in>set ms. Q m"
    and "\<And>m outcome. Q m \<Longrightarrow> Q (update_row raw (classify raw outcome) now m)"
    and "\<And>rid outcome. Q (insert_row rid uid raw (classify raw outcome) now)"
  shows "\<forall>m\<in>set (ingest uid now raw ms). Q m"
proof -
  have s: "\<forall>m\<in>set (upsert_row uid raw (classify raw None) now ms). Q m"
    by (rule upsert_row_all) (use assms in auto)
  show ?thesis
  proof (cases "raw_failure raw")
    case None
    then show ?thesis using s by (simp add: ingest_def Let_def)
  next
    case (Some detail)
    have "\<forall>m\<in>set (upsert_row uid raw (classify raw (Some (EnrichmentFailed detail))) now
             (upsert_row uid raw (classify raw None) now ms)). Q m"
      by (rule upsert_row_all) (use assms s in auto)
    then show ?thesis using Some by (simp add: ingest_def Let_def)
  qed
qed

lemma ingest_distinct:
  "distinct (map message_key ms) \<Longrightarrow> distinct (map message_key (ingest uid now raw ms))"
  by (simp add: ingest_def Let_def upsert_row_distinct split: option.splits)

lemma fold_ingest_distinct:
  "distinct (map message_key ms) \<Longrightarrow>
   distinct (map message_key (fold (ingest uid now) batch ms))"
  by (induction batch arbitrary: ms) (simp_all add: ingest_distinct)

lemma fold_ingest_all:
  assumes "\<forall>m\<in>set ms. Q m"
    and "\<And>raw m outcome. Q m \<Longrightarrow> Q (update_row raw (classify raw outcome) now m)"
    and "\<And>raw rid outcome. raw \<in> set batch \<Longrightarrow>
           Q (insert_row rid uid raw (classify raw outcome) now)"
  shows "\<forall>m\<in>set (fold (ingest uid now) batch ms). Q m"
  using assms
proof (induction batch arbitrary: ms)
  case Nil
  then show ?case by simp
next
  case (Cons raw batch)
  have a: "\<forall>m\<in>set (ingest uid now raw ms). Q m"
    by (rule ingest_all) (use Cons.prems in auto)
  have "\<forall>m\<in>set (fold (ingest uid now) batch (ingest uid now raw ms)). Q m"
    by (rule Cons.IH [OF a]) (use Cons.prems in auto)
  then show ?case by simp
qed

lemma evict_subset: "set (evict cap uid ms) \<subseteq> set ms"
  by (auto simp add: evict_def Let_def)

lemma evict_distinct:
  "distinct (map message_key ms) \<Longrightarrow> distinct (map message_key (evict cap uid ms))"
  by (simp add: evict_def Let_def distinct_map_filter)

lemma fetch_window_subset:
  "raw \<in> set (fetch_window fl n returned) \<Longrightarrow> raw \<in> set returned \<and> fl < raw_received_at raw"
proof -
  assume "raw \<in> set (fetch_window fl n returned)"
  then have "raw \<in> set (sort_key raw_received_at (filter (\<lambda>m. fl < raw_received_at m) returned))"
    unfolding fetch_window_def by (rule in_set_takeD)
  then show ?thesis by simp
qed

lemma baseline_le_floor: "conn_baseline_at c \<le> fetch_floor c"
  by (simp add: fetch_floor_def split: option.splits)


lemma row_ok_iff:
  "row_ok cs m = (owner_of cs (msg_user_id m) \<noteq> None \<and> \<not> received_before_baseline cs m)"
  by (auto simp add: row_ok_def received_before_baseline_def split: option.splits)

lemma store_invariant_iff:
  "store_invariant db = (keys_unique db \<and> no_orphans db \<and> baseline_respected db \<and> status_closed db)"
  by (auto simp add: store_invariant_def keys_unique_def no_orphans_def baseline_respected_def
      status_closed_def status_ok_def row_ok_iff connection_of_def list_all_iff list_ex_iff)

lemma row_ok_map:
  assumes "\<And>c. conn_user_id (f c) = conn_user_id c"
    and "\<And>c. conn_baseline_at (f c) = conn_baseline_at c"
  shows "row_ok (map f cs) m = row_ok cs m"
  by (auto simp add: row_ok_def owner_of_map [of f, OF assms(1)] assms(2))

lemma row_ok_append:
  "row_ok cs m \<Longrightarrow> row_ok (cs @ [c]) m"
  by (auto simp add: row_ok_def owner_of_append)

lemma row_ok_filter:
  "msg_user_id m \<noteq> uid \<Longrightarrow> row_ok (filter (\<lambda>c. conn_user_id c \<noteq> uid) cs) m = row_ok cs m"
  by (simp add: row_ok_def owner_of_filter)

lemma row_ok_update_row: "row_ok cs (update_row raw cls t m) = row_ok cs m"
  by (simp add: row_ok_def update_row_frame)

lemma classify_status: "status_ok (insert_row rid uid raw (classify raw outcome) t)"
  by (simp add: status_ok_def insert_row_def default_row_def classify_def Let_def
      split: option.splits enrichment_outcome.splits)

lemma status_ok_update_row:
  "status_ok m \<Longrightarrow> status_ok (update_row raw (classify raw outcome) t m)"
  by (simp add: status_ok_def update_row_def classify_def Let_def
      split: option.splits enrichment_outcome.splits)

lemma invariant_upsertConnection:
  assumes "store_invariant db"
  shows "store_invariant (upsertConnection uid g e now db)"
proof (cases "connection_of db uid")
  case None
  then show ?thesis
    using assms by (auto simp add: store_invariant_def upsertConnection_def row_ok_append)
next
  case (Some c)
  have "\<And>m. row_ok (map (\<lambda>c. if conn_user_id c = uid
                          then c\<lparr> conn_gmail_user := g, conn_email := e,
                                  conn_updated_at := now \<rparr>
                          else c) (gmail_connections db)) m = row_ok (gmail_connections db) m"
    by (rule row_ok_map) simp_all
  then show ?thesis
    using assms Some by (simp add: store_invariant_def upsertConnection_def)
qed

lemma invariant_disconnect:
  assumes "store_invariant db"
  shows "store_invariant (disconnect uid db)"
  using assms
  by (auto simp add: store_invariant_def disconnect_def delete_connection_def
      distinct_map_filter row_ok_filter)

lemma upsert_row_existing:
  assumes "(uid, raw_message_id raw) \<in> set (map message_key ms)"
  shows "upsert_row uid raw cls t ms =
           map (\<lambda>m. if message_key m = (uid, raw_message_id raw)
                     then update_row raw cls t m else m) ms"
  using assms by (simp add: upsert_row_def)

lemma invariant_report_enrichment:
  assumes "store_invariant db"
  shows "store_invariant (report_enrichment uid raw outcome now db)"
proof (cases "(uid, raw_message_id raw) \<in> set (map message_key (gmail_messages db))")
  case False
  then show ?thesis using assms by (simp add: report_enrichment_def)
next
  case True
  have d: "distinct (map message_key
      (upsert_row uid raw (classify raw (Some outcome)) now (gmail_messages db)))"
    using assms by (simp add: store_invariant_def upsert_row_distinct)
  have "\<forall>m\<in>set (map (\<lambda>m. if message_key m = (uid, raw_message_id raw)
                     then update_row raw (classify raw (Some outcome)) now m else m)
                (gmail_messages db)).
          row_ok (gmail_connections db) m \<and> status_ok m"
    using assms by (auto simp add: store_invariant_def row_ok_update_row status_ok_update_row)
  then show ?thesis
    using True d by (simp add: report_enrichment_def store_invariant_def upsert_row_existing)
qed

lemma invariant_runSync:
  assumes inv: "store_invariant db"
    and run: "runSync cap uid n mailbox now db = Inr (db', k)"
  shows "store_invariant db'"
proof -
  obtain c where c: "owner_of (gmail_connections db) uid = Some c"
    using run by (auto simp add: runSync_def getConnection_def connection_of_def
        split: option.splits)
  obtain returned where mb: "mailbox = MailboxReturned returned"
    using run c by (auto simp add: runSync_def getConnection_def connection_of_def
        split: mailbox_response.splits)
  define batch where "batch = fetch_window (fetch_floor c) n returned"
  define stored where "stored = fold (ingest uid now) batch (gmail_messages db)"
  define polled where "polled = advance_last_poll uid batch (gmail_connections db)"
  define cs' where "cs' = (if conn_baseline_ready c then polled
      else map (\<lambda>c. if conn_user_id c = uid then c\<lparr> conn_baseline_ready := True \<rparr> else c) polled)"
  have db': "db' = \<lparr> gmail_connections = cs', gmail_messages = evict cap uid stored \<rparr>"
    using run c mb
    by (auto simp add: runSync_def getConnection_def connection_of_def Let_def batch_def
        stored_def polled_def cs'_def markBaselineReady_def)
  have polled_ok: "\<And>m. row_ok polled m = row_ok (gmail_connections db) m"
  proof (cases batch)
    case Nil
    then show "\<And>m. row_ok polled m = row_ok (gmail_connections db) m"
      by (simp add: polled_def advance_last_poll_def)
  next
    case (Cons r rs)
    have "\<And>m t. row_ok (map (\<lambda>c. if conn_user_id c = uid
                    then c\<lparr> conn_last_poll_at := Some t \<rparr>
                    else c) (gmail_connections db)) m = row_ok (gmail_connections db) m"
      by (rule row_ok_map) simp_all
    then show "\<And>m. row_ok polled m = row_ok (gmail_connections db) m"
      using Cons by (simp add: polled_def advance_last_poll_def)
  qed
  have ready_ok: "\<And>m. row_ok (map (\<lambda>c. if conn_user_id c = uid
        then c\<lparr> conn_baseline_ready := True \<rparr> else c) polled) m = row_ok polled m"
    by (rule row_ok_map) simp_all
  have cs'_ok: "\<And>m. row_ok cs' m = row_ok (gmail_connections db) m"
    using polled_ok ready_ok by (simp add: cs'_def)
  have new_ok: "\<And>raw rid cls. raw \<in> set batch \<Longrightarrow>
      row_ok (gmail_connections db) (insert_row rid uid raw cls now)"
  proof -
    fix raw rid cls
    assume "raw \<in> set batch"
    then have "fetch_floor c < raw_received_at raw"
      unfolding batch_def by (auto dest: fetch_window_subset)
    then have "conn_baseline_at c \<le> raw_received_at raw"
      using baseline_le_floor [of c] by simp
    then show "row_ok (gmail_connections db) (insert_row rid uid raw cls now)"
      using c by (simp add: row_ok_def insert_row_def default_row_def)
  qed
  have "\<forall>m\<in>set stored. row_ok (gmail_connections db) m \<and> status_ok m"
    unfolding stored_def
  proof (rule fold_ingest_all)
    show "\<forall>m\<in>set (gmail_messages db). row_ok (gmail_connections db) m \<and> status_ok m"
      using inv by (simp add: store_invariant_def)
  next
    fix raw m outcome
    assume "row_ok (gmail_connections db) m \<and> status_ok m"
    then show "row_ok (gmail_connections db) (update_row raw (classify raw outcome) now m) \<and>
          status_ok (update_row raw (classify raw outcome) now m)"
      by (simp add: row_ok_update_row status_ok_update_row)
  next
    fix raw rid outcome
    assume "raw \<in> set batch"
    then show "row_ok (gmail_connections db) (insert_row rid uid raw (classify raw outcome) now) \<and>
          status_ok (insert_row rid uid raw (classify raw outcome) now)"
      by (simp add: new_ok classify_status)
  qed
  then have rows: "\<forall>m\<in>set (evict cap uid stored). row_ok cs' m \<and> status_ok m"
    using evict_subset [of cap uid stored] cs'_ok by auto
  have "distinct (map message_key stored)"
    unfolding stored_def using inv by (simp add: store_invariant_def fold_ingest_distinct)
  then have "distinct (map message_key (evict cap uid stored))"
    by (rule evict_distinct)
  then show ?thesis using rows by (simp add: db' store_invariant_def)
qed

lemma invariant_apply_op:
  "store_invariant db \<Longrightarrow> store_invariant (apply_op cap op db)"
  by (cases op)
    (auto simp add: invariant_upsertConnection invariant_disconnect invariant_report_enrichment
      split: sum.splits dest: invariant_runSync)

lemma invariant_apply_ops:
  "store_invariant db \<Longrightarrow> store_invariant (apply_ops cap ops db)"
  by (induction ops arbitrary: db) (simp_all add: invariant_apply_op)

lemma invariant_empty: "store_invariant empty_database"
  by (simp add: store_invariant_def empty_database_def)


lemmas store_eval = upsertConnection_def runSync_def
  getConnection_def connection_of_def owner_of_def empty_database_def fetch_window_def
  fetch_floor_def ingest_def upsert_row_def insert_row_def default_row_def update_row_def classify_def
  advance_last_poll_def markBaselineReady_def evict_def message_key_def example_raw_def
  stored_summary_def fresh_row_id_def disconnect_def delete_connection_def Let_def
  report_enrichment_def


text \<open>
  C1. In every state the store reaches from the empty database, by any sequence of
  authorizations, disconnects, sync passes and enrichment reports, no stored message was
  received before the baseline of its owning connection; and every message a sync pass takes
  from what the mailbox returned was received after the baseline.
\<close>

theorem baseline_never_crossed:
  "baseline_respected (apply_ops cap ops empty_database) \<and>
   (\<forall>raw\<in>set (fetch_window (fetch_floor c) maxMessages returned).
      conn_baseline_at c < raw_received_at raw)"
proof
  have "store_invariant (apply_ops cap ops empty_database)"
    by (rule invariant_apply_ops [OF invariant_empty])
  then show "baseline_respected (apply_ops cap ops empty_database)"
    by (simp add: store_invariant_iff)
next
  show "\<forall>raw\<in>set (fetch_window (fetch_floor c) maxMessages returned).
      conn_baseline_at c < raw_received_at raw"
  proof
    fix raw
    assume "raw \<in> set (fetch_window (fetch_floor c) maxMessages returned)"
    then have "fetch_floor c < raw_received_at raw" by (auto dest: fetch_window_subset)
    then show "conn_baseline_at c < raw_received_at raw"
      using baseline_le_floor [of c] by simp
  qed
qed

theorem baseline_never_crossed_witness:
  "stored_summary (apply_ops 3 baseline_scenario empty_database) =
     [(''u1'', ''fresh'', ''new'', Some 1001)] \<and>
   map conn_baseline_at (gmail_connections (apply_ops 3 baseline_scenario empty_database)) = [1000] \<and>
   baseline_respected (apply_ops 3 baseline_scenario empty_database)"
  using baseline_never_crossed [of 3 baseline_scenario]
  by (simp add: baseline_scenario_def store_eval)

lemma runSync_messages:
  assumes "runSync cap uid n mailbox now db = Inr (db', k)"
  shows "\<exists>batch. gmail_messages db' = evict cap uid (fold (ingest uid now) batch (gmail_messages db))"
  using assms
  by (auto simp add: runSync_def Let_def markBaselineReady_def
      split: option.splits mailbox_response.splits if_splits)

lemma keys_unique_apply_op:
  assumes "keys_unique db"
  shows "keys_unique (apply_op cap op db)"
proof (cases op)
  case (Authorize uid g e now)
  then show ?thesis
    using assms by (simp add: keys_unique_def upsertConnection_def split: option.splits)
next
  case (Disconnect uid)
  then show ?thesis
    using assms by (simp add: keys_unique_def disconnect_def delete_connection_def distinct_map_filter)
next
  case (Sync uid n mailbox now)
  show ?thesis
  proof (cases "runSync cap uid n mailbox now db")
    case (Inl e)
    then show ?thesis using assms Sync by simp
  next
    case (Inr r)
    obtain db' k where r: "r = (db', k)" by (cases r)
    obtain batch where
      "gmail_messages db' = evict cap uid (fold (ingest uid now) batch (gmail_messages db))"
      using runSync_messages Inr r by blast
    then have "keys_unique db'"
      using assms by (simp add: keys_unique_def fold_ingest_distinct evict_distinct)
    then show ?thesis using Sync Inr r by simp
  qed
next
  case (Enriched uid raw outcome now)
  then show ?thesis
    using assms by (simp add: keys_unique_def report_enrichment_def upsert_row_distinct)
qed

lemma keys_unique_apply_ops:
  "keys_unique db \<Longrightarrow> keys_unique (apply_ops cap ops db)"
  by (induction ops arbitrary: db) (simp_all add: keys_unique_apply_op)

lemma upsert_row_existing_ids:
  assumes "(uid, raw_message_id raw) \<in> set (map message_key ms)"
  shows "map msg_row_id (upsert_row uid raw cls t ms) = map msg_row_id ms"
proof -
  have "map msg_row_id (map (\<lambda>m. if message_key m = (uid, raw_message_id raw)
                     then update_row raw cls t m else m) ms) = map msg_row_id ms"
    by (induction ms) (simp_all add: update_row_frame)
  then show ?thesis using assms by (simp add: upsert_row_existing)
qed

lemma update_row_fields:
  "msg_subject (update_row raw cls t m) = raw_subject raw"
  "msg_sender (update_row raw cls t m) = raw_sender raw"
  "msg_snippet (update_row raw cls t m) = raw_snippet raw"
  "msg_status (update_row raw cls t m) = (if msg_updated_at m \<le> t then cls_status cls else msg_status m)"
  "msg_crm_record_url (update_row raw cls t m) =
     (if msg_updated_at m \<le> t then cls_crm_record_url cls else msg_crm_record_url m)"
  "msg_error (update_row raw cls t m) = (if msg_updated_at m \<le> t then cls_error cls else msg_error m)"
  "msg_updated_at (update_row raw cls t m) = (if msg_updated_at m \<le> t then t else msg_updated_at m)"
  by (simp_all add: update_row_def Let_def)

lemma ingest_existing:
  assumes "(uid, raw_message_id raw) \<in> set (map message_key ms)"
  shows "\<exists>cls. ingest uid now raw ms =
           map (\<lambda>m. if message_key m = (uid, raw_message_id raw)
                     then update_row raw cls now (update_row raw (classify raw None) now m)
                     else m) ms \<or>
         ingest uid now raw ms =
           map (\<lambda>m. if message_key m = (uid, raw_message_id raw)
                     then update_row raw (classify raw None) now m else m) ms"
proof (cases "raw_failure raw")
  case None
  then show ?thesis using assms by (simp add: ingest_def Let_def upsert_row_existing)
next
  case (Some d)
  have k: "(uid, raw_message_id raw) \<in> set (map message_key
      (upsert_row uid raw (classify raw None) now ms))"
    using assms by (simp add: upsert_row_keys)
  have s1: "upsert_row uid raw (classify raw None) now ms =
      map (\<lambda>m. if message_key m = (uid, raw_message_id raw)
                 then update_row raw (classify raw None) now m else m) ms"
    by (rule upsert_row_existing [OF assms])
  have s2: "upsert_row uid raw (classify raw (Some (EnrichmentFailed d))) now
        (upsert_row uid raw (classify raw None) now ms) =
      map (\<lambda>m. if message_key m = (uid, raw_message_id raw)
                 then update_row raw (classify raw (Some (EnrichmentFailed d))) now m else m)
        (upsert_row uid raw (classify raw None) now ms)"
    by (rule upsert_row_existing [OF k])
  have "ingest uid now raw ms =
      upsert_row uid raw (classify raw (Some (EnrichmentFailed d))) now
        (upsert_row uid raw (classify raw None) now ms)"
    using Some by (simp add: ingest_def Let_def)
  also have "\<dots> =
      map (\<lambda>m. if message_key m = (uid, raw_message_id raw)
                 then update_row raw (classify raw (Some (EnrichmentFailed d))) now m else m)
        (upsert_row uid raw (classify raw None) now ms)"
    by (rule s2)
  also have "\<dots> =
      map (\<lambda>m. if message_key m = (uid, raw_message_id raw)
                 then update_row raw (classify raw (Some (EnrichmentFailed d))) now m else m)
        (map (\<lambda>m. if message_key m = (uid, raw_message_id raw)
                 then update_row raw (classify raw None) now m else m) ms)"
    by (simp only: s1)
  also have "\<dots> = map (\<lambda>m. if message_key m = (uid, raw_message_id raw)
                     then update_row raw (classify raw (Some (EnrichmentFailed d))) now
                            (update_row raw (classify raw None) now m)
                     else m) ms"
    by (simp add: update_row_key)
  finally show ?thesis by blast
qed

lemma ingest_existing_refreshes:
  assumes "(uid, raw_message_id raw) \<in> set (map message_key ms)"
    and "m' \<in> set (ingest uid now raw ms)"
    and "message_key m' = (uid, raw_message_id raw)"
  shows "msg_subject m' = raw_subject raw \<and> msg_sender m' = raw_sender raw \<and>
         msg_snippet m' = raw_snippet raw"
  using ingest_existing [OF assms(1), of now] assms(2,3)
  by (auto simp add: update_row_fields)

lemma ingest_keys_existing:
  assumes "(uid, raw_message_id raw) \<in> set (map message_key ms)"
  shows "map message_key (ingest uid now raw ms) = map message_key ms"
  using assms by (simp add: ingest_def Let_def upsert_row_keys split: option.splits)

text \<open>
  C2. The pair \<open>(user_id, message_id)\<close> identifies a stored message: the keys of the
  stored rows stay distinct under every sequence of operations (so under two sync passes
  over overlapping windows). An upsert of a key that is stored adds no row and updates the
  row of that key: its subject, sender and snippet become the new ones, and its status,
  CRM link, error and \<open>updated_at\<close> become the new ones unless the row was updated
  later; every other row, and every other column of that row, stays as it is. So the
  ingestion of a stored message leaves the keys as they are and the stored subject, sender
  and snippet are the ingested ones. The schema refuses the insert of a second row with a
  stored key.
\<close>

theorem message_key_unique:
  "(keys_unique db \<longrightarrow> keys_unique (apply_ops cap ops db)) \<and>
   keys_unique (apply_ops cap ops empty_database) \<and>
   ((uid, raw_message_id raw) \<in> set (map message_key ms) \<longrightarrow>
      map message_key (upsert_row uid raw cls t ms) = map message_key ms \<and>
      map msg_row_id (upsert_row uid raw cls t ms) = map msg_row_id ms \<and>
      upsert_row uid raw cls t ms =
        map (\<lambda>m. if message_key m = (uid, raw_message_id raw)
                  then m\<lparr> msg_subject := raw_subject raw, msg_sender := raw_sender raw,
                          msg_snippet := raw_snippet raw,
                          msg_status := (if msg_updated_at m \<le> t then cls_status cls
                                         else msg_status m),
                          msg_crm_record_url := (if msg_updated_at m \<le> t then cls_crm_record_url cls
                                                 else msg_crm_record_url m),
                          msg_error := (if msg_updated_at m \<le> t then cls_error cls
                                        else msg_error m),
                          msg_updated_at := (if msg_updated_at m \<le> t then t
                                             else msg_updated_at m) \<rparr>
                  else m) ms \<and>
      map message_key (ingest uid t raw ms) = map message_key ms \<and>
      (\<forall>m'\<in>set (ingest uid t raw ms). message_key m' = (uid, raw_message_id raw) \<longrightarrow>
         msg_subject m' = raw_subject raw \<and> msg_sender m' = raw_sender raw \<and>
         msg_snippet m' = raw_snippet raw)) \<and>
   (message_key row \<in> set (map message_key (gmail_messages db)) \<longrightarrow>
      (\<exists>e. insert_message row db = Inl e))"
proof (intro conjI impI ballI)
  show "keys_unique db \<Longrightarrow> keys_unique (apply_ops cap ops db)"
    by (rule keys_unique_apply_ops)
  have "keys_unique empty_database" by (simp add: keys_unique_def empty_database_def)
  then show "keys_unique (apply_ops cap ops empty_database)" by (rule keys_unique_apply_ops)
  show "(uid, raw_message_id raw) \<in> set (map message_key ms) \<Longrightarrow>
      map message_key (upsert_row uid raw cls t ms) = map message_key ms"
    by (simp add: upsert_row_keys)
  show "(uid, raw_message_id raw) \<in> set (map message_key ms) \<Longrightarrow>
      map msg_row_id (upsert_row uid raw cls t ms) = map msg_row_id ms"
    by (rule upsert_row_existing_ids)
  show "(uid, raw_message_id raw) \<in> set (map message_key ms) \<Longrightarrow>
      upsert_row uid raw cls t ms =
        map (\<lambda>m. if message_key m = (uid, raw_message_id raw)
                  then m\<lparr> msg_subject := raw_subject raw, msg_sender := raw_sender raw,
                          msg_snippet := raw_snippet raw,
                          msg_status := (if msg_updated_at m \<le> t then cls_status cls
                                         else msg_status m),
                          msg_crm_record_url := (if msg_updated_at m \<le> t then cls_crm_record_url cls
                                                 else msg_crm_record_url m),
                          msg_error := (if msg_updated_at m \<le> t then cls_error cls
                                        else msg_error m),
                          msg_updated_at := (if msg_updated_at m \<le> t then t
                                             else msg_updated_at m) \<rparr>
                  else m) ms"
    by (simp add: upsert_row_existing update_row_def Let_def)
  show "(uid, raw_message_id raw) \<in> set (map message_key ms) \<Longrightarrow>
      map message_key (ingest uid t raw ms) = map message_key ms"
    by (rule ingest_keys_existing)
  show "\<And>m'. (uid, raw_message_id raw) \<in> set (map message_key ms) \<Longrightarrow>
      m' \<in> set (ingest uid t raw ms) \<Longrightarrow> message_key m' = (uid, raw_message_id raw) \<Longrightarrow>
      msg_subject m' = raw_subject raw"
    using ingest_existing_refreshes by blast
  show "\<And>m'. (uid, raw_message_id raw) \<in> set (map message_key ms) \<Longrightarrow>
      m' \<in> set (ingest uid t raw ms) \<Longrightarrow> message_key m' = (uid, raw_message_id raw) \<Longrightarrow>
      msg_sender m' = raw_sender raw"
    using ingest_existing_refreshes by blast
  show "\<And>m'. (uid, raw_message_id raw) \<in> set (map message_key ms) \<Longrightarrow>
      m' \<in> set (ingest uid t raw ms) \<Longrightarrow> message_key m' = (uid, raw_message_id raw) \<Longrightarrow>
      msg_snippet m' = raw_snippet raw"
    using ingest_existing_refreshes by blast
  show "message_key row \<in> set (map message_key (gmail_messages db)) \<Longrightarrow>
      \<exists>e. insert_message row db = Inl e"
    by (simp add: insert_message_def)
qed

theorem message_key_unique_witness:
  "stored_summary (apply_ops 3 reingest_scenario empty_database) =
     [(''u1'', ''m1'', ''new'', Some 1001), (''u1'', ''m2'', ''new'', Some 1003)] \<and>
   map msg_subject (gmail_messages (apply_ops 3 reingest_scenario empty_database)) =
     [Some ''renamed'', None] \<and>
   map msg_updated_at (gmail_messages (apply_ops 3 reingest_scenario empty_database)) =
     [3000, 3000] \<and>
   keys_unique (apply_ops 3 reingest_scenario empty_database) \<and>
   map msg_row_id (gmail_messages (apply_ops 3 reingest_scenario empty_database)) = [1, 2] \<and>
   map msg_subject
     (upsert_row ''u1'' ((example_raw ''m1'' 1002)\<lparr> raw_subject := Some ''renamed'' \<rparr>)
        (classify (example_raw ''m1'' 1002) None) 3000
        [default_row 1 ''u1'' ''m1'' 2000]) = [Some ''renamed''] \<and>
   insert_message (default_row 7 ''u1'' ''m1'' 4000) (apply_ops 3 reingest_scenario empty_database) =
     Inl UniqueViolation"
  using message_key_unique [of empty_database 3 reingest_scenario "''u1''"
      "(example_raw ''m1'' 1002)\<lparr> raw_subject := Some ''renamed'' \<rparr>"
      "[default_row 1 ''u1'' ''m1'' 2000]" "classify (example_raw ''m1'' 1002) None" 3000
      "default_row 7 ''u1'' ''m1'' 4000"]
  by (simp add: reingest_scenario_def store_eval keys_unique_def insert_message_def)

lemma no_orphans_disconnect:
  assumes "no_orphans db"
  shows "no_orphans (disconnect uid db)"
  using assms
  by (auto simp add: no_orphans_def disconnect_def delete_connection_def connection_of_def
      list_all_iff owner_of_filter)

text \<open>
  C3. After a disconnect the user has no connection row and no message row, and the rows of
  the other users are as before; a store without orphan messages has none afterwards, and no
  state reached from the empty database has one.
\<close>

theorem disconnect_cascades:
  "connection_of (disconnect uid db) uid = None \<and>
   filter (\<lambda>m. msg_user_id m = uid) (gmail_messages (disconnect uid db)) = [] \<and>
   filter (\<lambda>m. msg_user_id m \<noteq> uid) (gmail_messages (disconnect uid db)) =
     filter (\<lambda>m. msg_user_id m \<noteq> uid) (gmail_messages db) \<and>
   filter (\<lambda>c. conn_user_id c \<noteq> uid) (gmail_connections (disconnect uid db)) =
     filter (\<lambda>c. conn_user_id c \<noteq> uid) (gmail_connections db) \<and>
   (no_orphans db \<longrightarrow> no_orphans (disconnect uid db)) \<and>
   no_orphans (apply_ops cap ops empty_database)"
proof (intro conjI impI)
  show "connection_of (disconnect uid db) uid = None"
    by (simp add: disconnect_def delete_connection_def connection_of_def owner_of_filter_self)
  show "filter (\<lambda>m. msg_user_id m = uid) (gmail_messages (disconnect uid db)) = []"
    by (simp add: disconnect_def delete_connection_def filter_empty_conv)
  show "filter (\<lambda>m. msg_user_id m \<noteq> uid) (gmail_messages (disconnect uid db)) =
     filter (\<lambda>m. msg_user_id m \<noteq> uid) (gmail_messages db)"
    by (simp add: disconnect_def delete_connection_def)
  show "filter (\<lambda>c. conn_user_id c \<noteq> uid) (gmail_connections (disconnect uid db)) =
     filter (\<lambda>c. conn_user_id c \<noteq> uid) (gmail_connections db)"
    by (simp add: disconnect_def delete_connection_def)
  show "no_orphans db \<Longrightarrow> no_orphans (disconnect uid db)"
    by (rule no_orphans_disconnect)
  have "store_invariant (apply_ops cap ops empty_database)"
    by (rule invariant_apply_ops [OF invariant_empty])
  then show "no_orphans (apply_ops cap ops empty_database)"
    by (simp add: store_invariant_iff)
qed

theorem disconnect_cascades_witness:
  "stored_summary (apply_ops 3 resync_scenario empty_database) =
     [(''u1'', ''m1'', ''new'', Some 1001), (''u1'', ''m2'', ''new'', Some 1003)] \<and>
   no_orphans (apply_ops 3 resync_scenario empty_database) \<and>
   disconnect ''u1'' (apply_ops 3 resync_scenario empty_database) = empty_database"
  using disconnect_cascades [of "''u1''" "apply_ops 3 resync_scenario empty_database" 3 resync_scenario]
  by (simp add: resync_scenario_def store_eval no_orphans_def)






end
